theory Spec2Isabelle
  imports Complex_Main "HOL-Library.Word" "HOL-Library.Sublist"
begin

section \<open>JavaScript strings\<close>

text \<open>
  A JavaScript string is a sequence of UTF-16 code units; \<open>length\<close>, \<open>slice\<close>,
  \<open>split\<close>, \<open>startsWith\<close> and the regular expressions of \<open>extension.ts\<close> (none has
  the \<open>u\<close> flag) all work on code units. A string is therefore a list of 16-bit words,
  and an ASCII literal of the source is written \<open>js ''...''\<close>.
\<close>

type_synonym char16 = "16 word"
type_synonym jsstring = "char16 list"

definition js :: "string \<Rightarrow> jsstring" where
  "js s = map of_char s"

section \<open>Context selection in \<open>analyzePaper\<close> (extension.ts, lines 587-606)\<close>

text \<open>\<open>const maxChars = 60000;\<close>\<close>

definition maxChars :: nat where
  "maxChars = 60000"

text \<open>
  \<open>const headChars = Math.floor(maxChars * 0.67);\<close>
  The IEEE double product \<open>60000 * 0.67\<close> is exactly \<open>40200.0\<close>, so the floor agrees
  with the floor of the exact quotient \<open>60000 * 67 / 100\<close>.
\<close>

definition headChars :: nat where
  "headChars = (maxChars * 67) div 100"

text \<open>\<open>const tailChars = maxChars - headChars;\<close>\<close>

definition tailChars :: nat where
  "tailChars = maxChars - headChars"

text \<open>
  The elision marker \<open>'\n\n[... ....... ...]\n\n'\<close>: two line feeds, \<open>[... \<close>, the seven
  CJK code units U+4E2D U+95F4 U+90E8 U+5206 U+5DF2 U+7701 U+7565, \<open> ...]\<close>, two line
  feeds.
\<close>

definition elisionMarker :: jsstring where
  "elisionMarker =
     js [CHR 0x0A, CHR 0x0A] @ js ''[... '' @
     [0x4E2D, 0x95F4, 0x90E8, 0x5206, 0x5DF2, 0x7701, 0x7565] @
     js '' ...]'' @ js [CHR 0x0A, CHR 0x0A]"

text \<open>
  \<open>s.slice(0, n)\<close> for \<open>n \<ge> 0\<close> is \<open>take n s\<close>. \<open>s.slice(-n)\<close> for \<open>n > 0\<close> starts at
  \<open>max(s.length - n, 0)\<close>: the truncating subtraction of \<open>nat\<close> is that maximum.
\<close>

definition slice_last :: "nat \<Rightarrow> 'a list \<Rightarrow> 'a list" where
  "slice_last n s = drop (length s - n) s"

text \<open>
  \<open>Math.round(x)\<close> rounds to the nearest integer, ties towards \<open>+\<infinity>\<close>. The argument here
  is \<open>maxChars / totalChars * 100\<close> for integers; on every tie of the exact quotient
  with \<open>totalChars > maxChars\<close> (96000, 160000, 480000, 800000, 2400000, 4000000, 12000000)
  the double computation is exact, and elsewhere the exact quotient is further from a
  tie than the rounding error, so the exact rational value is rounded.
\<close>

definition Math_round :: "rat \<Rightarrow> int" where
  "Math_round x = \<lfloor>x + 1 / 2\<rfloor>"

text \<open>
  \<open>readNote\<close>: either \<open>'....'\<close> (full text) or the splice note with \<open>readPct\<close>,
  \<open>headChars\<close>, \<open>tailChars\<close> and \<open>totalChars\<close> interpolated.
\<close>

datatype readNote =
    FullText
  | Spliced (readPct: int) (noteHead: nat) (noteTail: nat) (noteTotal: nat)

record selection =
  usedText :: jsstring
  readNote :: readNote

definition selectContext :: "jsstring \<Rightarrow> selection" where
  "selectContext pdfText =
     (let totalChars = length pdfText in
      if totalChars \<le> maxChars then
        \<lparr>usedText = pdfText, readNote = FullText\<rparr>
      else
        let head = take headChars pdfText;
            tail = slice_last tailChars pdfText;
            readPct = Math_round (of_nat maxChars / of_nat totalChars * 100)
        in \<lparr>usedText = head @ elisionMarker @ tail,
            readNote = Spliced readPct headChars tailChars totalChars\<rparr>)"

section \<open>String helpers used by \<open>extension.ts\<close>\<close>

definition slash :: char16 where
  "slash = 0x2F"

definition backslash :: char16 where
  "backslash = 0x5C"

definition newline :: char16 where
  "newline = 0x0A"

text \<open>\<open>s.replace(/\\/g, '/')\<close>: every backslash becomes a slash.\<close>

definition backslashes_to_slashes :: "jsstring \<Rightarrow> jsstring" where
  "backslashes_to_slashes s = map (\<lambda>c. if c = backslash then slash else c) s"

text \<open>\<open>s.replace(/\/$/, '')\<close>: one slash at the very end of the string is removed.\<close>

definition strip_trailing_slash :: "jsstring \<Rightarrow> jsstring" where
  "strip_trailing_slash s = (if s \<noteq> [] \<and> last s = slash then butlast s else s)"

text \<open>\<open>s.replace(/^\//, '')\<close>: one slash at the very start of the string is removed.\<close>

definition strip_leading_slash :: "jsstring \<Rightarrow> jsstring" where
  "strip_leading_slash s = (case s of [] \<Rightarrow> [] | c # r \<Rightarrow> if c = slash then r else s)"

text \<open>
  \<open>s.split(sep)\<close> for a separator that is one code unit, or a class of single code
  units (\<open>/[-.]/\<close>): the pieces between separators, empty pieces kept; the empty string
  gives one empty piece. The last case of the inner \<open>case\<close> is never reached, since the
  result is never the empty list.
\<close>

fun split_on :: "('a \<Rightarrow> bool) \<Rightarrow> 'a list \<Rightarrow> 'a list list" where
  "split_on P [] = [[]]"
| "split_on P (x # xs) =
     (if P x then [] # split_on P xs
      else (case split_on P xs of l # ls \<Rightarrow> (x # l) # ls | [] \<Rightarrow> [[x]]))"

text \<open>\<open>pieces.join(sep)\<close>\<close>

fun join_with :: "'a list \<Rightarrow> 'a list list \<Rightarrow> 'a list" where
  "join_with sep [] = []"
| "join_with sep [l] = l"
| "join_with sep (l # ls) = l @ sep @ join_with sep ls"

text \<open>
  \<open>s.trim()\<close> removes the WhiteSpace and LineTerminator code points of ECMAScript from
  both ends: TAB, LF, VT, FF, CR, SP, NBSP, U+1680, U+2000..U+200A, U+2028, U+2029,
  U+202F, U+205F, U+3000, U+FEFF.
\<close>

definition isWhiteSpace :: "char16 \<Rightarrow> bool" where
  "isWhiteSpace c \<longleftrightarrow>
     c \<in> {0x09, 0x0A, 0x0B, 0x0C, 0x0D, 0x20, 0xA0, 0x1680, 0x2028, 0x2029,
          0x202F, 0x205F, 0x3000, 0xFEFF} \<or> (0x2000 \<le> c \<and> c \<le> 0x200A)"

definition trim :: "jsstring \<Rightarrow> jsstring" where
  "trim s = rev (dropWhile isWhiteSpace (rev (dropWhile isWhiteSpace s)))"

text \<open>
  \<open>s.toLowerCase()\<close> is the Unicode default case conversion of the runtime. On a string of
  ASCII code units it maps the letters \<open>A-Z\<close> to \<open>a-z\<close> and leaves every other code unit
  alone. On a string with a code unit outside ASCII the result comes from the case
  mapping tables of the runtime (they map \<open>U+00C8\<close> to \<open>U+00E8\<close>, a capital sigma
  depending on its position, \<open>U+0130\<close> to two code units): these tables are not part of
  the sources, so the conversion of such strings is the parameter \<open>lower\<close>.
\<close>

definition isAscii :: "char16 \<Rightarrow> bool" where
  "isAscii c \<longleftrightarrow> c < 0x80"

definition toLowerCase :: "(jsstring \<Rightarrow> jsstring) \<Rightarrow> jsstring \<Rightarrow> jsstring" where
  "toLowerCase lower s =
     (if list_all isAscii s
      then map (\<lambda>c. if 0x41 \<le> c \<and> c \<le> 0x5A then c + 0x20 else c) s
      else lower s)"

text \<open>
  \<open>s.toUpperCase()\<close> is applied only to a key that has matched \<open>/^[A-Z0-9]{8}$/i\<close>: a string
  of ASCII letters and digits, on which it maps \<open>a-z\<close> to \<open>A-Z\<close>.
\<close>

definition toUpperCase :: "jsstring \<Rightarrow> jsstring" where
  "toUpperCase s = map (\<lambda>c. if 0x61 \<le> c \<and> c \<le> 0x7A then c - 0x20 else c) s"

section \<open>\<open>extractKeyFromPath\<close> (extension.ts, lines 463-472)\<close>

text \<open>
  \<open>/^[A-Z0-9]{8}$/i.test(key)\<close>. Without the \<open>u\<close> flag, case-insensitive matching
  canonicalises with \<open>toUpperCase\<close> but never maps a non-ASCII code unit to an ASCII one,
  so the class matches exactly the ASCII digits and letters of either case.
\<close>

definition isKeyChar :: "char16 \<Rightarrow> bool" where
  "isKeyChar c \<longleftrightarrow>
     (0x30 \<le> c \<and> c \<le> 0x39) \<or> (0x41 \<le> c \<and> c \<le> 0x5A) \<or> (0x61 \<le> c \<and> c \<le> 0x7A)"

definition isItemKey :: "jsstring \<Rightarrow> bool" where
  "isItemKey key \<longleftrightarrow> length key = 8 \<and> list_all isKeyChar key"

text \<open>
  \<open>path.dirname\<close> and \<open>path.basename\<close> are Node's POSIX functions (the extension watches
  a Linux home directory). \<open>dirname\<close> scans the indices from the end down to 1: it skips
  trailing slashes, then a run of other code units, and cuts at the slash before that
  run; without such a slash the result is \<open>'/'\<close> for a rooted path and \<open>'.'\<close> otherwise,
  and a rooted path cut at index 1 gives \<open>'//'\<close>. \<open>basename\<close> skips trailing slashes
  and returns the run of code units before them, up to the previous slash.
\<close>

definition dirname :: "jsstring \<Rightarrow> jsstring" where
  "dirname path =
     (if path = [] then js ''.''
      else
        let hasRoot = (hd path = slash);
            r = dropWhile (\<lambda>c. c \<noteq> slash) (dropWhile (\<lambda>c. c = slash) (rev (tl path)))
        in if r = [] then (if hasRoot then js ''/'' else js ''.'')
           else if hasRoot \<and> length r = 1 then js ''//''
           else take (length r) path)"

definition basename :: "jsstring \<Rightarrow> jsstring" where
  "basename path = rev (takeWhile (\<lambda>c. c \<noteq> slash) (dropWhile (\<lambda>c. c = slash) (rev path)))"

text \<open>
  \<open>storage\<close> is \<open>getConfig().storage\<close>, the configured Zotero storage directory. The index
  \<open>[0]\<close> of a split is always defined; \<open>|| ''\<close> maps an undefined or empty piece to \<open>''\<close>.
\<close>

definition extractKeyFromPath :: "jsstring \<Rightarrow> jsstring \<Rightarrow> jsstring option" where
  "extractKeyFromPath storage fullPath =
     (let normalized = backslashes_to_slashes fullPath;
          storageNorm = strip_trailing_slash (backslashes_to_slashes storage);
          rel = (if prefix storageNorm normalized
                 then strip_leading_slash (drop (length storageNorm) normalized)
                 else basename (dirname fullPath));
          key = (case split_on (\<lambda>c. c = slash) rel of [] \<Rightarrow> [] | k # _ \<Rightarrow> k)
      in if isItemKey key then Some (toUpperCase key) else None)"

section \<open>\<open>resolveModel\<close> (extension.ts, lines 418-444)\<close>

text \<open>\<open>vscode.LanguageModelChat\<close>: the fields the extension reads.\<close>

record lm =
  lm_name :: jsstring
  lm_family :: jsstring
  lm_id :: jsstring

text \<open>\<open>const normalize = (s: string) => s.replace(/[-_.]/g, '').toLowerCase();\<close>\<close>

definition normalize_str :: "(jsstring \<Rightarrow> jsstring) \<Rightarrow> jsstring \<Rightarrow> jsstring" where
  "normalize_str lower s =
     toLowerCase lower (filter (\<lambda>c. c \<notin> {0x2D, 0x5F, 0x2E}) s)"

text \<open>\<open>preferredFamily.split(/[-.]/).slice(0, 3).join('').toLowerCase()\<close>\<close>

definition family_prefix :: "(jsstring \<Rightarrow> jsstring) \<Rightarrow> jsstring \<Rightarrow> jsstring" where
  "family_prefix lower preferredFamily =
     toLowerCase lower
       (concat (take 3 (split_on (\<lambda>c. c = 0x2D \<or> c = 0x2E) preferredFamily)))"

text \<open>
  The body of \<open>resolveModel\<close> after \<open>available\<close> has been awaited. \<open>Array.find\<close> returns the
  first element that satisfies the predicate, as \<open>find\<close> does; \<open>s.startsWith(t)\<close> is
  \<open>prefix t s\<close> and \<open>s.includes(t)\<close> is \<open>sublist t s\<close>; \<open>available[0]\<close> of an empty array
  is \<open>undefined\<close>.
\<close>

definition resolveModel_from ::
  "(jsstring \<Rightarrow> jsstring) \<Rightarrow> lm list \<Rightarrow> jsstring \<Rightarrow> lm option" where
  "resolveModel_from lower available preferredFamily =
     (if length available = 0 then None
      else case find (\<lambda>m. lm_family m = preferredFamily) available of
        Some m \<Rightarrow> Some m
      | None \<Rightarrow>
     (case find (\<lambda>m. normalize_str lower (lm_family m) =
                      normalize_str lower preferredFamily) available of
        Some m \<Rightarrow> Some m
      | None \<Rightarrow>
     (case find (\<lambda>m. prefix (family_prefix lower preferredFamily)
                        (normalize_str lower (lm_family m))) available of
        Some m \<Rightarrow> Some m
      | None \<Rightarrow>
     (case (if prefix (js ''claude'') preferredFamily
            then find (\<lambda>m. sublist (js ''claude'') (lm_family m) \<or>
                            sublist (js ''claude'') (toLowerCase lower (lm_name m)))
                   available
            else None) of
        Some m \<Rightarrow> Some m
      | None \<Rightarrow> (case available of [] \<Rightarrow> None | m # _ \<Rightarrow> Some m)))))"

section \<open>Process state, collaborators and pending callbacks\<close>

text \<open>
  Time is in milliseconds. The event loop holds the callbacks that are pending, each with
  the time it is due: the callbacks set with \<open>setTimeout\<close> and the continuations of the
  functions suspended at an \<open>await\<close>, which run when the awaited operation has settled.
  The callbacks set with \<open>setTimeout\<close> in \<open>extension.ts\<close> are
  \<^item> \<open>() => recentlyProcessed.delete(itemKey)\<close> (line 532),
  \<^item> the debounce callback of \<open>handleNewFile\<close> (lines 653-661),
  \<^item> the resumption of that callback after \<open>await new Promise(r => setTimeout(r, 5000))\<close>
    (line 659).
\<close>

type_synonym time = nat

text \<open>
  The points at which a run of \<open>analyzePaper\<close> is suspended until a collaborator has
  answered, each with the local variables its continuation reads:
  \<^item> line 540, the banner of an automatic run (\<open>itemKey\<close>);
  \<^item> line 559, \<open>runPython(['pdf_to_text.py', itemKey])\<close> (\<open>itemKey\<close>);
  \<^item> line 412, \<open>selectChatModels\<close> in \<open>getAvailableModels\<close>, which \<open>resolveModel\<close> (line 576)
    reaches when the cache is empty (\<open>itemKey\<close>, \<open>pdfText\<close>);
  \<^item> lines 616-621, \<open>sendRequest\<close> and the loop over the streamed chunks (\<open>itemKey\<close>,
    \<open>selectedModel\<close>, \<open>pdfText\<close>);
  \<^item> line 632, \<open>runPython(['save_analysis.py', itemKey], analysis)\<close> (\<open>itemKey\<close>,
    \<open>analysis\<close>);
  \<^item> line 640, the completion message (\<open>itemKey\<close>).

  An \<open>await\<close> of a value that is already there (\<open>getAvailableModels\<close> with a filled cache,
  the rest of \<open>resolveModel\<close>) resumes before any pending callback runs, and the callback
  passed to \<open>withProgress\<close> starts at once: these are no suspension points.
\<close>

datatype await =
    AwaitPrompt jsstring
  | AwaitExtract jsstring
  | AwaitModels jsstring jsstring
  | AwaitStream jsstring lm jsstring
  | AwaitSave jsstring jsstring
  | AwaitDone jsstring

datatype task =
    ExpireRecent jsstring
  | DebounceFire jsstring
  | GraceDone jsstring
  | Resume await

record timer =
  tid :: nat
  due :: time
  task :: task

text \<open>
  What can go wrong with a collaborator. A Python script closes with a code other than 0
  (\<open>PythonExit\<close>) or cannot be spawned at all (\<open>SpawnError\<close>).
\<close>

datatype error = PythonExit | SpawnError | DiscoveryFailed | RequestFailed | StreamFailed

datatype script = Pdf_to_text | Save_analysis

datatype pick = ViewProgress | SkipThisTime | Dismissed

datatype follow_up = FollowUpChat | ViewLog | NoAction

text \<open>The operator notifications of \<open>analyzePaper\<close>, by the call that shows them.\<close>

datatype message =
    Detected jsstring
  | PdfExtractFailed error
  | PdfTextEmpty jsstring
  | NoModelFound
  | AnalysisFailed error
  | WritebackFailed error
  | Completed jsstring

text \<open>
  The calls to collaborators, in the order they are made. Lines written to the output
  channel by \<open>log\<close> and \<open>progress.report\<close> updates are not recorded, except the diagnostic
  of \<open>handleNewFile\<close> for a path without a key.
\<close>

datatype effect =
    ShowInformationMessage message
  | ShowWarningMessage message
  | ShowErrorMessage message
  | RunPython script jsstring "jsstring option"
  | SelectChatModels
  | SendRequest lm readNote jsstring
  | OpenChat jsstring
  | LogNoKey jsstring

text \<open>
  The module's variables (\<open>recentlyProcessed\<close>, \<open>pendingFiles\<close>, \<open>cachedModels\<close>), the
  clock and the pending callbacks of the event loop, the trace of collaborator calls, and
  the history \<open>fired\<close> of the callbacks the event loop has run.
\<close>

record state =
  now :: time
  recentlyProcessed :: "jsstring set"
  pendingFiles :: "jsstring \<rightharpoonup> nat"
  cachedModels :: "lm list"
  timers :: "timer list"
  nextId :: nat
  trace :: "effect list"
  fired :: "(time \<times> task) list"

text \<open>
  What the environment answers: the configuration, the case mapping tables of the
  runtime, the file system, the operator, the Python scripts and the Copilot backend.
  \<open>sendRequest\<close> either rejects, or streams chunks and then ends normally (\<open>None\<close>) or
  throws (\<open>Some e\<close>). \<open>latency w a\<close> is the time the operation awaited at \<open>a\<close> takes to
  settle.
\<close>

record world =
  cfg_storage :: jsstring
  cfg_model :: jsstring
  unicodeLower :: "jsstring \<Rightarrow> jsstring"
  existsSync :: "time \<Rightarrow> jsstring \<Rightarrow> bool"
  startPrompt :: "jsstring \<Rightarrow> pick"
  pdf_to_text :: "jsstring \<Rightarrow> error + jsstring"
  selectChatModels :: "error + lm list"
  sendRequest :: "lm \<Rightarrow> readNote \<Rightarrow> jsstring \<Rightarrow> error + (jsstring list \<times> error option)"
  save_analysis :: "jsstring \<Rightarrow> jsstring \<Rightarrow> error + jsstring"
  donePrompt :: "jsstring \<Rightarrow> follow_up"
  latency :: "await \<Rightarrow> nat"

definition emit :: "effect \<Rightarrow> state \<Rightarrow> state" where
  "emit e s = s\<lparr>trace := trace s @ [e]\<rparr>"

text \<open>\<open>setTimeout(callback, delay)\<close> returns the handle of the new timer.\<close>

definition setTimeout :: "task \<Rightarrow> nat \<Rightarrow> state \<Rightarrow> nat \<times> state" where
  "setTimeout t delay s =
     (nextId s,
      s\<lparr>timers := timers s @ [\<lparr>tid = nextId s, due = now s + delay, task = t\<rparr>],
        nextId := Suc (nextId s)\<rparr>)"

text \<open>\<open>clearTimeout(handle)\<close>; clearing a timer that has fired does nothing.\<close>

definition clearTimeout :: "nat \<Rightarrow> state \<Rightarrow> state" where
  "clearTimeout i s = s\<lparr>timers := filter (\<lambda>t. tid t \<noteq> i) (timers s)\<rparr>"

section \<open>\<open>getAvailableModels\<close> and \<open>resolveModel\<close> with the model cache\<close>

text \<open>
  The two functions run from call to return, with the answer of \<open>selectChatModels\<close> taken
  at once. The stages of \<open>analyzePaper\<close> below split them at the \<open>await\<close> of line 412.
\<close>

definition getAvailableModels :: "world \<Rightarrow> state \<Rightarrow> lm list \<times> state" where
  "getAvailableModels w s =
     (if length (cachedModels s) > 0 then (cachedModels s, s)
      else
        let ms = (case selectChatModels w of Inl e \<Rightarrow> [] | Inr ms \<Rightarrow> ms);
            s1 = emit SelectChatModels s
        in (ms, s1\<lparr>cachedModels := ms\<rparr>))"

definition resolveModel :: "world \<Rightarrow> jsstring \<Rightarrow> state \<Rightarrow> lm option \<times> state" where
  "resolveModel w preferredFamily s =
     (let (available, s1) = getAvailableModels w s
      in (resolveModel_from (unicodeLower w) available preferredFamily, s1))"

section \<open>\<open>analyzePaper\<close> (extension.ts, lines 529-646)\<close>

text \<open>
  Lines 560-562: \<open>lines = raw.trim().split('\n')\<close>, \<open>lines[0]\<close> is logged,
  \<open>pdfText = lines.slice(1).join('\n')\<close>.
\<close>

definition statusLine :: "jsstring \<Rightarrow> jsstring" where
  "statusLine raw = (case split_on (\<lambda>c. c = newline) (trim raw) of [] \<Rightarrow> [] | l # _ \<Rightarrow> l)"

definition pdfTextOf :: "jsstring \<Rightarrow> jsstring" where
  "pdfTextOf raw = join_with [newline] (drop 1 (split_on (\<lambda>c. c = newline) (trim raw)))"

text \<open>
  \<open>runPython\<close> (lines 474-493): the promise resolves with the output when the process
  closes with code 0 and rejects when it closes with another code. When the process
  cannot be spawned the child emits \<open>'error'\<close>, for which no listener is registered, and
  no \<open>'close'\<close> reaches the promise: it stays pending, and the run that awaits it never
  resumes. Every other awaited operation settles.
\<close>

definition settles :: "world \<Rightarrow> await \<Rightarrow> bool" where
  "settles w a =
     (case a of
        AwaitExtract itemKey \<Rightarrow> pdf_to_text w itemKey \<noteq> Inl SpawnError
      | AwaitSave itemKey analysis \<Rightarrow> save_analysis w itemKey analysis \<noteq> Inl SpawnError
      | _ \<Rightarrow> True)"

text \<open>
  The run is written stage by stage: each stage goes from one \<open>await\<close> to the next and
  returns the state it leaves and the \<open>await\<close> it stops at, or \<open>None\<close> when the run has
  ended. The prompt texts read by \<open>loadSkillPrompt\<close> and \<open>loadValidTags\<close> are fixed inputs
  of the request and are not part of the recorded call; the request is recorded with the
  resolved model, the read note and the selected text.

  The start of the callback passed to \<open>withProgress\<close> (lines 555-559).
\<close>

definition startPipeline :: "jsstring \<Rightarrow> state \<Rightarrow> state \<times> await option" where
  "startPipeline itemKey s =
     (emit (RunPython Pdf_to_text itemKey None) s, Some (AwaitExtract itemKey))"

text \<open>
  Lines 420-444 and 577-616, once \<open>available\<close> is known: the model is resolved, the text
  is selected and the request is sent.
\<close>

definition sendToModel ::
  "world \<Rightarrow> jsstring \<Rightarrow> jsstring \<Rightarrow> lm list \<Rightarrow> state \<Rightarrow> state \<times> await option" where
  "sendToModel w itemKey pdfText available s =
     (case resolveModel_from (unicodeLower w) available (cfg_model w) of
        None \<Rightarrow> (emit (ShowErrorMessage NoModelFound) s, None)
      | Some m \<Rightarrow>
          let sel = selectContext pdfText
          in (emit (SendRequest m (readNote sel) (usedText sel)) s,
              Some (AwaitStream itemKey m pdfText)))"

text \<open>
  \<open>resume w a s\<close>: the run from the moment the operation awaited at \<open>a\<close> has settled.
  A promise of \<open>runPython\<close> that stays pending has no continuation; the equation for it
  is there to make the function total.
\<close>

fun resume :: "world \<Rightarrow> await \<Rightarrow> state \<Rightarrow> state \<times> await option" where
  "resume w (AwaitPrompt itemKey) s =
     (if startPrompt w itemKey = SkipThisTime
      then (s\<lparr>recentlyProcessed := recentlyProcessed s - {itemKey}\<rparr>, None)
      else startPipeline itemKey s)"
| "resume w (AwaitExtract itemKey) s =
     (case pdf_to_text w itemKey of
        Inl err \<Rightarrow>
          if err = SpawnError then (s, None)
          else (emit (ShowErrorMessage (PdfExtractFailed err)) s, None)
      | Inr raw \<Rightarrow>
          let pdfText = pdfTextOf raw in
          if trim pdfText = [] then (emit (ShowWarningMessage (PdfTextEmpty itemKey)) s, None)
          else if length (cachedModels s) > 0
          then sendToModel w itemKey pdfText (cachedModels s) s
          else (emit SelectChatModels s, Some (AwaitModels itemKey pdfText)))"
| "resume w (AwaitModels itemKey pdfText) s =
     (let ms = (case selectChatModels w of Inl e \<Rightarrow> [] | Inr ms \<Rightarrow> ms)
      in sendToModel w itemKey pdfText ms (s\<lparr>cachedModels := ms\<rparr>))"
| "resume w (AwaitStream itemKey m pdfText) s =
     (let sel = selectContext pdfText
      in case sendRequest w m (readNote sel) (usedText sel) of
           Inl err \<Rightarrow> (emit (ShowErrorMessage (AnalysisFailed err)) s, None)
         | Inr (chunks, Some err) \<Rightarrow> (emit (ShowErrorMessage (AnalysisFailed err)) s, None)
         | Inr (chunks, None) \<Rightarrow>
             let analysis = concat chunks
             in (emit (RunPython Save_analysis itemKey (Some analysis)) s,
                 Some (AwaitSave itemKey analysis)))"
| "resume w (AwaitSave itemKey analysis) s =
     (case save_analysis w itemKey analysis of
        Inl err \<Rightarrow>
          if err = SpawnError then (s, None)
          else (emit (ShowWarningMessage (WritebackFailed err)) s, None)
      | Inr result \<Rightarrow>
          (emit (ShowInformationMessage (Completed itemKey)) s, Some (AwaitDone itemKey)))"
| "resume w (AwaitDone itemKey) s =
     (if donePrompt w itemKey = FollowUpChat then emit (OpenChat itemKey) s else s, None)"

text \<open>
  Suspending at an \<open>await\<close> registers the continuation, due when the awaited operation
  settles; \<open>proceed\<close> does so for the \<open>await\<close> a stage has stopped at.
\<close>

definition suspend :: "world \<Rightarrow> await \<Rightarrow> state \<Rightarrow> state" where
  "suspend w a s = (if settles w a then snd (setTimeout (Resume a) (latency w a) s) else s)"

definition proceed :: "world \<Rightarrow> state \<times> await option \<Rightarrow> state" where
  "proceed w r = (case snd r of None \<Rightarrow> fst r | Some a \<Rightarrow> suspend w a (fst r))"

text \<open>
  The call of \<open>analyzePaper\<close> up to its first \<open>await\<close> (lines 530-540 for an automatic run,
  lines 530-559 for a manual one).
\<close>

definition analyzePaper :: "world \<Rightarrow> jsstring \<Rightarrow> bool \<Rightarrow> state \<Rightarrow> state" where
  "analyzePaper w itemKey autoTriggered s =
     (if itemKey \<in> recentlyProcessed s then s
      else
        let s1 = s\<lparr>recentlyProcessed := insert itemKey (recentlyProcessed s)\<rparr>;
            s2 = snd (setTimeout (ExpireRecent itemKey) 120000 s1)
        in if autoTriggered
           then suspend w (AwaitPrompt itemKey)
                  (emit (ShowInformationMessage (Detected itemKey)) s2)
           else proceed w (startPipeline itemKey s2))"

text \<open>
  The callback passed to \<open>withProgress\<close> (lines 553-645) from its start to its end, as one
  step of the state: every collaborator has answered at once and no other callback has
  run in between. It is what the stages do one after the other (\<open>pipeline_stages\<close>
  below).
\<close>

definition pipeline :: "world \<Rightarrow> jsstring \<Rightarrow> state \<Rightarrow> state" where
  "pipeline w itemKey s =
     (let s1 = emit (RunPython Pdf_to_text itemKey None) s in
      case pdf_to_text w itemKey of
        Inl err \<Rightarrow>
          if err = SpawnError then s1
          else emit (ShowErrorMessage (PdfExtractFailed err)) s1
      | Inr raw \<Rightarrow>
          let pdfText = pdfTextOf raw in
          if trim pdfText = [] then emit (ShowWarningMessage (PdfTextEmpty itemKey)) s1
          else
            let (selectedModel, s2) = resolveModel w (cfg_model w) s1 in
            case selectedModel of
              None \<Rightarrow> emit (ShowErrorMessage NoModelFound) s2
            | Some m \<Rightarrow>
                let sel = selectContext pdfText;
                    s3 = emit (SendRequest m (readNote sel) (usedText sel)) s2
                in case sendRequest w m (readNote sel) (usedText sel) of
                     Inl err \<Rightarrow> emit (ShowErrorMessage (AnalysisFailed err)) s3
                   | Inr (chunks, Some err) \<Rightarrow> emit (ShowErrorMessage (AnalysisFailed err)) s3
                   | Inr (chunks, None) \<Rightarrow>
                       let analysis = concat chunks;
                           s4 = emit (RunPython Save_analysis itemKey (Some analysis)) s3
                       in case save_analysis w itemKey analysis of
                            Inl err \<Rightarrow>
                              if err = SpawnError then s4
                              else emit (ShowWarningMessage (WritebackFailed err)) s4
                          | Inr result \<Rightarrow>
                              let s5 = emit (ShowInformationMessage (Completed itemKey)) s4
                              in if donePrompt w itemKey = FollowUpChat
                                 then emit (OpenChat itemKey) s5 else s5)"

section \<open>\<open>handleNewFile\<close> (extension.ts, lines 650-662)\<close>

definition handleNewFile :: "jsstring \<Rightarrow> state \<Rightarrow> state" where
  "handleNewFile fullPath s =
     (if \<not> suffix (js ''.pdf'') fullPath then s
      else
        let s1 = (case pendingFiles s fullPath of Some i \<Rightarrow> clearTimeout i s | None \<Rightarrow> s);
            (i, s2) = setTimeout (DebounceFire fullPath) 3000 s1
        in s2\<lparr>pendingFiles := (pendingFiles s2)(fullPath \<mapsto> i)\<rparr>)"

text \<open>The debounce callback up to its \<open>await\<close> (lines 654-659).\<close>

definition debounceFired :: "world \<Rightarrow> jsstring \<Rightarrow> state \<Rightarrow> state" where
  "debounceFired w fullPath s =
     (let s1 = s\<lparr>pendingFiles := (pendingFiles s)(fullPath := None)\<rparr> in
      if \<not> existsSync w (now s1) fullPath then s1
      else case extractKeyFromPath (cfg_storage w) fullPath of
             None \<Rightarrow> emit (LogNoKey fullPath) s1
           | Some key \<Rightarrow> snd (setTimeout (GraceDone key) 5000 s1))"

text \<open>The rest of the callback, after the 5 second wait (line 660).\<close>

definition graceDone :: "world \<Rightarrow> jsstring \<Rightarrow> state \<Rightarrow> state" where
  "graceDone w key s = analyzePaper w key True s"

section \<open>The event loop\<close>

definition runTask :: "world \<Rightarrow> task \<Rightarrow> state \<Rightarrow> state" where
  "runTask w t s =
     (case t of
        ExpireRecent itemKey \<Rightarrow> s\<lparr>recentlyProcessed := recentlyProcessed s - {itemKey}\<rparr>
      | DebounceFire fullPath \<Rightarrow> debounceFired w fullPath s
      | GraceDone key \<Rightarrow> graceDone w key s
      | Resume a \<Rightarrow> proceed w (resume w a s))"

text \<open>
  Callbacks run at the time they are due. Of the pending callbacks the one due first
  runs first, and of two due at the same time the one registered first.
\<close>

fun earliest :: "timer list \<Rightarrow> timer option" where
  "earliest [] = None"
| "earliest (t # ts) =
     (case earliest ts of
        None \<Rightarrow> Some t
      | Some u \<Rightarrow> if due u < due t then Some u else Some t)"

definition nextTimer :: "time \<Rightarrow> state \<Rightarrow> timer option" where
  "nextTimer T s = earliest (filter (\<lambda>t. due t \<le> T) (timers s))"

definition fire :: "world \<Rightarrow> timer \<Rightarrow> state \<Rightarrow> state" where
  "fire w tm s =
     runTask w (task tm)
       (s\<lparr>now := due tm,
          timers := filter (\<lambda>t. tid t \<noteq> tid tm) (timers s),
          fired := fired s @ [(due tm, task tm)]\<rparr>)"

text \<open>
  The \<open>await\<close>s of a run come in a fixed order, and a stage stops at a later one than it
  started from.
\<close>

fun rank :: "await \<Rightarrow> nat" where
  "rank (AwaitDone k) = 1"
| "rank (AwaitSave k a) = 2"
| "rank (AwaitStream k m t) = 3"
| "rank (AwaitModels k t) = 4"
| "rank (AwaitExtract k) = 5"
| "rank (AwaitPrompt k) = 6"

text \<open>
  A callback registers callbacks that register fewer in turn: the debounce callback the
  5 second wait, the wait (through \<open>analyzePaper\<close>) the expiry and the continuation of the
  banner, a continuation the next one.
\<close>

fun weight :: "task \<Rightarrow> nat" where
  "weight (ExpireRecent k) = 1"
| "weight (Resume a) = rank a"
| "weight (GraceDone k) = 8"
| "weight (DebounceFire p) = 9"

text \<open>
  \<open>advance w T\<close> runs the event loop up to time \<open>T\<close>: the callbacks due by then run in
  order, each at the time it is due, those they register included.
\<close>

function advance :: "world \<Rightarrow> time \<Rightarrow> state \<Rightarrow> state" where
  "advance w T s =
     (case nextTimer T s of
        None \<Rightarrow> s\<lparr>now := max (now s) T\<rparr>
      | Some tm \<Rightarrow> advance w T (fire w tm s))"
  by pat_completeness auto
termination
proof (relation "measure (\<lambda>(w, T, s). sum_list (map (\<lambda>t. weight (task t)) (timers s)))")
  show "wf (measure (\<lambda>(w, T, s). sum_list (map (\<lambda>t. weight (task t)) (timers s))))"
    by simp
next
  fix w :: world and T :: time and s :: state and tm :: timer
  let ?W = "\<lambda>ts. sum_list (map (\<lambda>t. weight (task t)) ts)"
  assume next_tm: "nextTimer T s = Some tm"
  have earliest_mem: "earliest ts = Some u \<Longrightarrow> u \<in> set ts" for ts u
    by (induction ts arbitrary: u) (auto split: option.splits if_splits)
  have tm_in: "tm \<in> set (timers s)"
    using earliest_mem [OF next_tm [unfolded nextTimer_def]] by simp
  have filtered: "?W (filter P ts) \<le> ?W ts" for P ts
    by (induction ts) auto
  have removed: "?W (filter (\<lambda>t. tid t \<noteq> tid u) ts) + weight (task u) \<le> ?W ts"
    if "u \<in> set ts" for ts u
    using that
  proof (induction ts)
    case Nil
    then show ?case by simp
  next
    case (Cons a ts)
    show ?case
    proof (cases "a = u")
      case True
      then show ?thesis
        using filtered [of "\<lambda>t. tid t \<noteq> tid u" ts] by simp
    next
      case False
      then have "?W (filter (\<lambda>t. tid t \<noteq> tid u) ts) + weight (task u) \<le> ?W ts"
        using Cons by simp
      then show ?thesis by simp
    qed
  qed
  have timers_emit: "timers (emit e st) = timers st" for e st
    by (simp add: emit_def)
  have send: "timers (fst (sendToModel w' k t ms st)) = timers st \<and>
      (\<forall>a'. snd (sendToModel w' k t ms st) = Some a' \<longrightarrow> rank a' = 3)" for w' k t ms st
    by (simp add: sendToModel_def Let_def timers_emit split: option.splits)
  have stage: "timers (fst (resume w' a st)) = timers st \<and>
      (\<forall>a'. snd (resume w' a st) = Some a' \<longrightarrow> rank a' < rank a)" for w' a st
  proof (cases a)
    case (AwaitPrompt k)
    then show ?thesis by (simp add: startPipeline_def timers_emit)
  next
    case (AwaitExtract k)
    then show ?thesis
      using send [of w' k _ "cachedModels st" st]
      by (auto simp: Let_def timers_emit split: sum.splits)
  next
    case (AwaitModels k t)
    then show ?thesis
      using send [of w' k t _ "st\<lparr>cachedModels := _\<rparr>"] by (auto simp: Let_def)
  next
    case (AwaitStream k m t)
    then show ?thesis
      by (auto simp: Let_def timers_emit split: sum.splits option.splits)
  next
    case (AwaitSave k x)
    then show ?thesis by (auto simp: timers_emit split: sum.splits)
  next
    case (AwaitDone k)
    then show ?thesis by (simp add: timers_emit)
  qed
  have susp: "?W (timers (suspend w' a st)) \<le> ?W (timers st) + rank a" for w' a st
    by (simp add: suspend_def setTimeout_def)
  have cont: "?W (timers (proceed w' (resume w' a st))) + 1 \<le> ?W (timers st) + rank a"
    for w' a st
  proof (cases "snd (resume w' a st)")
    case None
    have "0 < rank a" by (cases a) simp_all
    then show ?thesis
      using stage [of w' a st] None by (simp add: proceed_def)
  next
    case (Some a')
    then have "rank a' < rank a"
      using stage [of w' a st] by simp
    then show ?thesis
      using susp [of w' a' "fst (resume w' a st)"] stage [of w' a st] Some
      by (simp add: proceed_def)
  qed
  have analyze: "?W (timers (analyzePaper w' k True st)) \<le> ?W (timers st) + 7" for w' k st
    using susp [of w' "AwaitPrompt k"]
    by (simp add: analyzePaper_def Let_def setTimeout_def suspend_def timers_emit)
  have debounce: "?W (timers (debounceFired w' p st)) \<le> ?W (timers st) + 8" for w' p st
    by (simp add: debounceFired_def Let_def setTimeout_def timers_emit split: option.splits)
  have run: "?W (timers (runTask w' t st)) + 1 \<le> ?W (timers st) + weight t" for w' t st
  proof (cases t)
    case (ExpireRecent k)
    then show ?thesis by (simp add: runTask_def)
  next
    case (DebounceFire p)
    then show ?thesis
      using debounce [of w' p st] by (simp add: runTask_def)
  next
    case (GraceDone k)
    then show ?thesis
      using analyze [of w' k st] by (simp add: runTask_def graceDone_def)
  next
    case (Resume a)
    then show ?thesis
      using cont [of w' a st] by (simp add: runTask_def)
  qed
  have "?W (timers (fire w tm s)) + 1 \<le> ?W (filter (\<lambda>t. tid t \<noteq> tid tm) (timers s)) + weight (task tm)"
    unfolding fire_def by (rule order_trans [OF run]) simp
  also have "\<dots> \<le> ?W (timers s)"
    by (rule removed [OF tm_in])
  finally show "((w, T, fire w tm s), (w, T, s)) \<in> measure (\<lambda>(w, T, s). sum_list (map (\<lambda>t. weight (task t)) (timers s)))"
    by simp
qed

text \<open>
  The stages of a run one after the other, with no other callback in between: from the
  \<open>await\<close> a stage has stopped at, the run goes on when the awaited operation settles,
  and stays where it is when it does not.
\<close>

function run_alone :: "world \<Rightarrow> state \<times> await option \<Rightarrow> state" where
  "run_alone w (s, None) = s"
| "run_alone w (s, Some a) = (if settles w a then run_alone w (resume w a s) else s)"
  by pat_completeness auto
termination
proof (relation "measure (\<lambda>(w, r). case snd r of None \<Rightarrow> 0 | Some a \<Rightarrow> rank a)")
  show "wf (measure (\<lambda>(w, r). case snd r of None \<Rightarrow> 0 | Some a \<Rightarrow> rank a))"
    by simp
next
  fix w :: world and s :: state and a :: await
  have pos: "0 < rank a" by (cases a) simp_all
  have send: "\<forall>a'. snd (sendToModel w k t ms st) = Some a' \<longrightarrow> rank a' = 3" for k t ms st
    by (simp add: sendToModel_def Let_def split: option.splits)
  have "\<forall>a'. snd (resume w a s) = Some a' \<longrightarrow> rank a' < rank a"
  proof (cases a)
    case (AwaitPrompt k)
    then show ?thesis by (simp add: startPipeline_def)
  next
    case (AwaitExtract k)
    then show ?thesis
      using send [of k _ "cachedModels s" s] by (auto simp: Let_def split: sum.splits)
  next
    case (AwaitModels k t)
    then show ?thesis
      using send [of k t _ "s\<lparr>cachedModels := _\<rparr>"] by (auto simp: Let_def)
  next
    case (AwaitStream k m t)
    then show ?thesis by (auto simp: Let_def split: sum.splits option.splits)
  next
    case (AwaitSave k x)
    then show ?thesis by (auto split: sum.splits)
  next
    case (AwaitDone k)
    then show ?thesis by simp
  qed
  then show "((w, resume w a s), (w, s, Some a)) \<in>
      measure (\<lambda>(w, r). case snd r of None \<Rightarrow> 0 | Some a \<Rightarrow> rank a)"
    using pos by (cases "snd (resume w a s)") simp_all
qed

text \<open>
  File system notifications for one path, delivered to \<open>handleNewFile\<close> at the given
  times, the event loop running in between.
\<close>

fun notifications :: "world \<Rightarrow> jsstring \<Rightarrow> time list \<Rightarrow> state \<Rightarrow> state" where
  "notifications w fullPath [] s = s"
| "notifications w fullPath (t # ts) s =
     notifications w fullPath ts (handleNewFile fullPath (advance w t s))"

section \<open>Auxiliary notions and concrete inputs\<close>

text \<open>An ASCII digit or capital letter: what a canonical item key consists of.\<close>

definition isUpperOrDigit :: "char16 \<Rightarrow> bool" where
  "isUpperOrDigit c \<longleftrightarrow> (0x30 \<le> c \<and> c \<le> 0x39) \<or> (0x41 \<le> c \<and> c \<le> 0x5A)"

text \<open>
  A storage directory, a document below it and the key of that document; a document in
  a directory beside the storage directory whose name starts with the name of the
  storage directory.
\<close>

definition demo_storage :: jsstring where
  "demo_storage = js ''/home/u/Zotero/storage''"

definition demo_pdf :: jsstring where
  "demo_pdf = js ''/home/u/Zotero/storage/abcd1234/paper.pdf''"

definition demo_key :: jsstring where
  "demo_key = js ''ABCD1234''"

definition sibling_pdf :: jsstring where
  "sibling_pdf = js ''/home/u/Zotero/storageABCD1234/x.pdf''"

text \<open>
  A storage directory and a document below it written with backslashes, and a document
  elsewhere written with backslashes.
\<close>

definition win_storage :: jsstring where
  "win_storage = js ''C:'' @ backslash # js ''Zotero'' @ backslash # js ''storage'' @ [backslash]"

definition win_pdf :: jsstring where
  "win_pdf = js ''C:'' @ backslash # js ''Zotero'' @ backslash # js ''storage'' @
     backslash # js ''abcd1234'' @ backslash # js ''paper.pdf''"

definition win_other :: jsstring where
  "win_other = js ''D:'' @ backslash # js ''abcd1234'' @ backslash # js ''paper.pdf''"

text \<open>The segments of a path: the pieces between its slashes.\<close>

definition segments :: "jsstring \<Rightarrow> jsstring list" where
  "segments p = split_on (\<lambda>c. c = slash) p"

text \<open>
  The model resolution as the specification words it. Normalisation strips hyphens,
  dots and underscores and lowercases. The tiers, each as a predicate on a model: the
  family equals the preferred name; the two are equal after normalisation; the
  normalised family starts with the normalised first three hyphen or dot delimited tokens
  of the preferred name; the preferred name is a \<open>claude\<close> name and the family or the
  display name (in any case) contains \<open>claude\<close>; any model.
\<close>

fun strip_punctuation :: "jsstring \<Rightarrow> jsstring" where
  "strip_punctuation [] = []"
| "strip_punctuation (c # s) =
     (if c = 0x2D \<or> c = 0x2E \<or> c = 0x5F then strip_punctuation s
      else c # strip_punctuation s)"

definition spec_normalize :: "(jsstring \<Rightarrow> jsstring) \<Rightarrow> jsstring \<Rightarrow> jsstring" where
  "spec_normalize lower s = toLowerCase lower (strip_punctuation s)"

definition first_three_tokens :: "jsstring \<Rightarrow> jsstring list" where
  "first_three_tokens preferred = take 3 (split_on (\<lambda>c. c = 0x2D \<or> c = 0x2E) preferred)"

definition exact_match :: "jsstring \<Rightarrow> lm \<Rightarrow> bool" where
  "exact_match preferred m \<longleftrightarrow> lm_family m = preferred"

definition normalized_match :: "(jsstring \<Rightarrow> jsstring) \<Rightarrow> jsstring \<Rightarrow> lm \<Rightarrow> bool" where
  "normalized_match lower preferred m \<longleftrightarrow>
     spec_normalize lower (lm_family m) = spec_normalize lower preferred"

definition prefix_match :: "(jsstring \<Rightarrow> jsstring) \<Rightarrow> jsstring \<Rightarrow> lm \<Rightarrow> bool" where
  "prefix_match lower preferred m \<longleftrightarrow>
     prefix (spec_normalize lower (concat (first_three_tokens preferred)))
       (spec_normalize lower (lm_family m))"

definition claude_match :: "(jsstring \<Rightarrow> jsstring) \<Rightarrow> jsstring \<Rightarrow> lm \<Rightarrow> bool" where
  "claude_match lower preferred m \<longleftrightarrow>
     prefix (js ''claude'') preferred \<and>
     (sublist (js ''claude'') (lm_family m) \<or>
      sublist (js ''claude'') (toLowerCase lower (lm_name m)))"

definition tiers :: "(jsstring \<Rightarrow> jsstring) \<Rightarrow> jsstring \<Rightarrow> (lm \<Rightarrow> bool) list" where
  "tiers lower preferred =
     [exact_match preferred, normalized_match lower preferred,
      prefix_match lower preferred, claude_match lower preferred, \<lambda>m. True]"

text \<open>
  The tiers are tried in order, and the first tier that some available model satisfies
  returns the first such model.
\<close>

fun first_tier_match :: "('a \<Rightarrow> bool) list \<Rightarrow> 'a list \<Rightarrow> 'a option" where
  "first_tier_match [] available = None"
| "first_tier_match (P # Ps) available =
     (case find P available of
        Some m \<Rightarrow> Some m
      | None \<Rightarrow> first_tier_match Ps available)"

definition spec_resolve :: "(jsstring \<Rightarrow> jsstring) \<Rightarrow> lm list \<Rightarrow> jsstring \<Rightarrow> lm option" where
  "spec_resolve lower available preferred =
     first_tier_match (tiers lower preferred) available"


text \<open>Models of the Copilot backend.\<close>

definition demo_sonnet :: lm where
  "demo_sonnet = \<lparr>lm_name = js ''Claude Sonnet 4.6'', lm_family = js ''claude-sonnet-4.6'',
     lm_id = js ''claude-sonnet-4.6''\<rparr>"

definition demo_gpt :: lm where
  "demo_gpt = \<lparr>lm_name = js ''GPT-4o'', lm_family = js ''gpt-4o'', lm_id = js ''gpt-4o''\<rparr>"






section \<open>Notions used to state the properties of runs\<close>

text \<open>The collaborator calls made between two states of a run.\<close>

definition effects_since :: "state \<Rightarrow> state \<Rightarrow> effect list" where
  "effects_since s s' = drop (length (trace s)) (trace s')"

text \<open>The state of the extension right after activation.\<close>

definition init :: state where
  "init = \<lparr>now = 0, recentlyProcessed = {}, pendingFiles = Map.empty, cachedModels = [],
     timers = [], nextId = 0, trace = [], fired = []\<rparr>"

text \<open>
  Timer handles are distinct and below the next handle; the history of one callback;
  the pending timers of one callback.
\<close>

definition wf_timers :: "state \<Rightarrow> bool" where
  "wf_timers s \<longleftrightarrow>
     distinct (map tid (timers s)) \<and> (\<forall>t\<in>set (timers s). tid t < nextId s)"

definition fired_for :: "task \<Rightarrow> state \<Rightarrow> (time \<times> task) list" where
  "fired_for t s = filter (\<lambda>e. snd e = t) (fired s)"

definition pending_for :: "task \<Rightarrow> state \<Rightarrow> timer list" where
  "pending_for t s = filter (\<lambda>tm. task tm = t) (timers s)"

text \<open>
  The callbacks that take a key out of \<open>recentlyProcessed\<close>: its expiry timers, and the
  continuation of the banner of an automatic run when the operator chooses to skip.
\<close>

definition releases :: "world \<Rightarrow> jsstring \<Rightarrow> task \<Rightarrow> bool" where
  "releases w key t \<longleftrightarrow>
     t = ExpireRecent key \<or>
     (t = Resume (AwaitPrompt key) \<and> startPrompt w key = SkipThisTime)"

text \<open>
  The callbacks that can start a run: those of the file watcher. In a state without them
  the event loop starts no run.
\<close>

fun starts_run :: "task \<Rightarrow> bool" where
  "starts_run (DebounceFire p) = True"
| "starts_run (GraceDone k) = True"
| "starts_run t = False"

definition no_watcher :: "state \<Rightarrow> bool" where
  "no_watcher s \<longleftrightarrow> list_all (\<lambda>t. \<not> starts_run (task t)) (timers s)"

text \<open>
  A callback \<open>r\<close> is alone up to time \<open>T\<close>: it is due by then, and the other pending
  callbacks, \<open>base\<close>, are due later.
\<close>

definition alone :: "time \<Rightarrow> timer list \<Rightarrow> timer \<Rightarrow> state \<Rightarrow> bool" where
  "alone T base r s \<longleftrightarrow>
     timers s = base @ [r] \<and> due r \<le> T \<and> tid r < nextId s \<and>
     list_all (\<lambda>t. T < due t \<and> tid t < nextId s \<and> tid t \<noteq> tid r) base"

text \<open>
  A world for concrete runs: the document is on disk until time 5000, the extractor
  prints a status line and one line of text, Copilot offers two models, generation
  streams two chunks, the write-back script closes with an error code, and every
  collaborator answers at once. All strings of these runs are ASCII, so the case
  conversion of other strings plays no part; it is the identity here.
\<close>

definition demo_raw :: jsstring where
  "demo_raw = js ''12 pages'' @ newline # js ''Abstract''"

definition demo_world :: world where
  "demo_world =
     \<lparr>cfg_storage = demo_storage,
      cfg_model = js ''claude-sonnet-4-6'',
      unicodeLower = (\<lambda>s. s),
      existsSync = (\<lambda>t p. t < 5000),
      startPrompt = (\<lambda>k. ViewProgress),
      pdf_to_text = (\<lambda>k. Inr demo_raw),
      selectChatModels = Inr [demo_sonnet, demo_gpt],
      sendRequest = (\<lambda>m n t. Inr ([js ''An'', js ''alysis''], None)),
      save_analysis = (\<lambda>k a. Inl PythonExit),
      donePrompt = (\<lambda>k. NoAction),
      latency = (\<lambda>a. 0)\<rparr>"


text \<open>
  The same world with collaborators that take their time: the operator answers a banner
  after 4 seconds, a script runs for 2 seconds, discovery takes 1 second and generation
  30 seconds. And that world with an operator who skips every automatic run.
\<close>

fun demo_latency :: "await \<Rightarrow> nat" where
  "demo_latency (AwaitPrompt k) = 4000"
| "demo_latency (AwaitExtract k) = 2000"
| "demo_latency (AwaitModels k t) = 1000"
| "demo_latency (AwaitStream k m t) = 30000"
| "demo_latency (AwaitSave k a) = 2000"
| "demo_latency (AwaitDone k) = 4000"

definition timed_world :: world where
  "timed_world = demo_world\<lparr>latency := demo_latency\<rparr>"

definition skip_world :: world where
  "skip_world = timed_world\<lparr>startPrompt := \<lambda>k. SkipThisTime\<rparr>"


section \<open>Properties of the context selection\<close>

lemma headChars_eq: "headChars = 40200"
  by (simp add: headChars_def maxChars_def)

lemma tailChars_eq: "tailChars = 19800"
  by (simp add: tailChars_def headChars_eq maxChars_def)

lemma length_elisionMarker: "length elisionMarker = 21"
  by (simp add: elisionMarker_def js_def)

lemma length_slice_last: "length (slice_last n s) = min n (length s)"
  by (simp add: slice_last_def)

lemma selectContext_long:
  "maxChars < length pdfText \<Longrightarrow>
     selectContext pdfText =
       \<lparr>usedText = take headChars pdfText @ elisionMarker @ slice_last tailChars pdfText,
        readNote = Spliced (Math_round (of_nat maxChars / of_nat (length pdfText) * 100))
                     headChars tailChars (length pdfText)\<rparr>"
  by (simp add: selectContext_def Let_def)

lemma selectContext_short:
  "length pdfText \<le> maxChars \<Longrightarrow>
     selectContext pdfText = \<lparr>usedText = pdfText, readNote = FullText\<rparr>"
  by (simp add: selectContext_def Let_def)

text \<open>
  Rounding to the nearest integer, ties upwards, stated without the floor: \<open>p\<close> is the
  rounded value of \<open>100 * m / n\<close> when \<open>p - 1/2 \<le> 100 * m / n < p + 1/2\<close>.
\<close>

lemma Math_round_bounds:
  assumes "0 < n"
  shows "(2 * Math_round (of_nat m / of_nat n * 100) - 1) * int n \<le> 200 * int m"
    and "200 * int m < (2 * Math_round (of_nat m / of_nat n * 100) + 1) * int n"
proof -
  let ?x = "(of_nat m / of_nat n * 100 :: rat)"
  let ?p = "Math_round ?x"
  have n0: "(0::rat) < of_nat n" using assms by simp
  have lo: "of_int ?p \<le> ?x + 1 / 2"
    unfolding Math_round_def by (rule of_int_floor_le)
  have hi: "?x + 1 / 2 < of_int ?p + 1"
    unfolding Math_round_def by linarith
  have "(of_int ?p - 1 / 2) * of_nat n \<le> ?x * of_nat n"
    using lo n0 by (intro mult_right_mono) auto
  then have "(2 * of_int ?p - 1) * (of_nat n :: rat) \<le> 200 * of_nat m"
    using n0 by (simp add: field_simps)
  then have "(of_int ((2 * ?p - 1) * int n) :: rat) \<le> of_int (200 * int m)"
    by simp
  then show "(2 * ?p - 1) * int n \<le> 200 * int m"
    by (simp only: of_int_le_iff)
  have "?x * of_nat n < (of_int ?p + 1 / 2) * of_nat n"
    using hi n0 by (intro mult_strict_right_mono) auto
  then have "200 * (of_nat m :: rat) < (2 * of_int ?p + 1) * of_nat n"
    using n0 by (simp add: field_simps)
  then have "(of_int (200 * int m) :: rat) < of_int ((2 * ?p + 1) * int n)"
    by simp
  then show "200 * int m < (2 * ?p + 1) * int n"
    by (simp only: of_int_less_iff)
qed

lemma Math_round_150000: "Math_round (of_nat maxChars / of_nat (150000::nat) * 100) = 40"
  unfolding Math_round_def by (rule floor_unique) (simp_all add: maxChars_def)

subsection \<open>C1: shape and length of the spliced text\<close>

text \<open>
  C1 as stated fails: for a text longer than \<open>maxChars\<close> the selected text is longer
  than \<open>maxChars\<close>. A text of 60001 letters \<open>a\<close> gives a selected text of 60021 code units.
\<close>

theorem C1_length_exceeds_budget:
  "\<not> length (usedText (selectContext (replicate 60001 0x61))) \<le> maxChars"
  by (simp add: selectContext_long maxChars_def headChars_eq tailChars_eq
      length_slice_last length_elisionMarker)

text \<open>
  C1, amended: for every text longer than \<open>maxChars\<close> the selected text is exactly
  head, elision marker, tail, where head and tail together have \<open>maxChars\<close> code units;
  the marker comes on top, so the selected text has \<open>maxChars + 21\<close> code units.
\<close>

theorem C1_splice_shape:
  assumes "maxChars < length pdfText"
  shows "usedText (selectContext pdfText) =
           take headChars pdfText @ elisionMarker @ slice_last tailChars pdfText \<and>
         length (take headChars pdfText) + length (slice_last tailChars pdfText) = maxChars \<and>
         length (usedText (selectContext pdfText)) = maxChars + length elisionMarker \<and>
         length (usedText (selectContext pdfText)) = 60021"
  using assms
  by (simp add: selectContext_long length_slice_last headChars_eq tailChars_eq
      maxChars_def length_elisionMarker)

theorem C1_splice_shape_witness:
  "maxChars < length (replicate 60001 (0x61::char16)) \<and>
   usedText (selectContext (replicate 60001 0x61)) =
     take headChars (replicate 60001 0x61) @ elisionMarker @
     slice_last tailChars (replicate 60001 0x61) \<and>
   length (usedText (selectContext (replicate 60001 0x61))) = 60021"
proof -
  have long: "maxChars < length (replicate 60001 (0x61::char16))"
    by (simp add: maxChars_def)
  show ?thesis
    using long C1_splice_shape [OF long] by blast
qed

subsection \<open>C5: where the text is cut\<close>

text \<open>
  C5 as stated fails: the head is not the first \<open>floor(maxChars * 2/3) = 40000\<close> code
  units. On a text of 60001 letters \<open>a\<close> the selected text still has an \<open>a\<close> at index 40000,
  where the splice with a head of 40000 has the first code unit of the marker.
\<close>

theorem C5_head_is_not_two_thirds:
  "usedText (selectContext (replicate 60001 0x61)) \<noteq>
     take (maxChars * 2 div 3) (replicate 60001 0x61) @ elisionMarker @
     slice_last (maxChars - maxChars * 2 div 3) (replicate 60001 0x61)"
proof
  assume "usedText (selectContext (replicate 60001 0x61)) =
     take (maxChars * 2 div 3) (replicate 60001 0x61) @ elisionMarker @
     slice_last (maxChars - maxChars * 2 div 3) (replicate 60001 0x61)"
  then have "usedText (selectContext (replicate 60001 0x61)) ! 40000 =
     (take (maxChars * 2 div 3) (replicate 60001 0x61) @ elisionMarker @
      slice_last (maxChars - maxChars * 2 div 3) (replicate 60001 0x61)) ! 40000"
    by simp
  then show False
    by (simp add: selectContext_long maxChars_def headChars_eq tailChars_eq nth_append
        elisionMarker_def js_def)
qed

text \<open>
  C5, amended: for every text longer than \<open>maxChars\<close> the head is exactly the first
  \<open>floor(maxChars * 0.67) = 40200\<close> code units and the tail exactly the last
  \<open>maxChars - 40200 = 19800\<close>, and the read note reports these two counts.
\<close>

theorem C5_head_and_tail:
  assumes "maxChars < length pdfText"
  shows "\<exists>head tail.
           usedText (selectContext pdfText) = head @ elisionMarker @ tail \<and>
           head = take 40200 pdfText \<and> length head = 40200 \<and>
           tail = drop (length pdfText - 19800) pdfText \<and> length tail = 19800 \<and>
           noteHead (readNote (selectContext pdfText)) = 40200 \<and>
           noteTail (readNote (selectContext pdfText)) = 19800"
  using assms
  by (simp add: selectContext_long slice_last_def headChars_eq tailChars_eq maxChars_def)

theorem C5_head_and_tail_witness:
  "maxChars < length (replicate 60001 (0x61::char16)) \<and>
   (\<exists>head tail.
      usedText (selectContext (replicate 60001 0x61)) = head @ elisionMarker @ tail \<and>
      head = take 40200 (replicate 60001 0x61) \<and> length head = 40200 \<and>
      tail = drop (length (replicate 60001 (0x61::char16)) - 19800) (replicate 60001 0x61) \<and>
      length tail = 19800 \<and>
      noteHead (readNote (selectContext (replicate 60001 0x61))) = 40200 \<and>
      noteTail (readNote (selectContext (replicate 60001 0x61))) = 19800)"
proof -
  have long: "maxChars < length (replicate 60001 (0x61::char16))"
    by (simp add: maxChars_def)
  show ?thesis
    using long C5_head_and_tail [OF long] by blast
qed

subsection \<open>C6: full text, coverage percentage and the two documents of the scenario\<close>

text \<open>
  C6: a text of at most \<open>maxChars\<close> code units is selected unchanged with the read note
  "full text"; for a longer text the reported percentage \<open>p\<close> is \<open>100 * maxChars / len\<close>
  rounded to the nearest integer, ties upwards (\<open>p - 1/2 \<le> 100 * maxChars / len < p + 1/2\<close>).
  A document of 48271 code units is used in full; one of 150000 gives a head of 40200, a
  tail of 19800 and 40 percent.
\<close>

theorem C6_coverage:
  "(length pdfText \<le> maxChars \<longrightarrow>
      selectContext pdfText = \<lparr>usedText = pdfText, readNote = FullText\<rparr>) \<and>
   (maxChars < length pdfText \<longrightarrow>
      (\<exists>p. readNote (selectContext pdfText) = Spliced p headChars tailChars (length pdfText) \<and>
           (2 * p - 1) * int (length pdfText) \<le> 200 * int maxChars \<and>
           200 * int maxChars < (2 * p + 1) * int (length pdfText))) \<and>
   (length pdfText = 48271 \<longrightarrow>
      usedText (selectContext pdfText) = pdfText \<and>
      readNote (selectContext pdfText) = FullText) \<and>
   (length pdfText = 150000 \<longrightarrow>
      usedText (selectContext pdfText) =
        take 40200 pdfText @ elisionMarker @ drop (150000 - 19800) pdfText \<and>
      length (take 40200 pdfText) = 40200 \<and>
      length (drop (150000 - 19800) pdfText) = 19800 \<and>
      readNote (selectContext pdfText) = Spliced 40 40200 19800 150000)"
proof (intro conjI impI)
  assume "length pdfText \<le> maxChars"
  then show "selectContext pdfText = \<lparr>usedText = pdfText, readNote = FullText\<rparr>"
    by (rule selectContext_short)
next
  assume long: "maxChars < length pdfText"
  then have pos: "0 < length pdfText" by (cases pdfText) simp_all
  show "\<exists>p. readNote (selectContext pdfText) = Spliced p headChars tailChars (length pdfText) \<and>
           (2 * p - 1) * int (length pdfText) \<le> 200 * int maxChars \<and>
           200 * int maxChars < (2 * p + 1) * int (length pdfText)"
    using Math_round_bounds [OF pos, of maxChars]
    by (simp add: selectContext_long [OF long])
next
  assume len: "length pdfText = 48271"
  then have "length pdfText \<le> maxChars" by (simp add: maxChars_def)
  then show "usedText (selectContext pdfText) = pdfText"
    and "readNote (selectContext pdfText) = FullText"
    by (simp_all add: selectContext_short)
next
  assume len: "length pdfText = 150000"
  then have long: "maxChars < length pdfText" by (simp add: maxChars_def)
  show "usedText (selectContext pdfText) =
          take 40200 pdfText @ elisionMarker @ drop (150000 - 19800) pdfText"
    by (simp add: selectContext_long [OF long] slice_last_def headChars_eq tailChars_eq len)
  show "length (take 40200 pdfText) = 40200"
    by (simp add: len)
  show "length (drop (150000 - 19800) pdfText) = 19800"
    by (simp add: len)
  show "readNote (selectContext pdfText) = Spliced 40 40200 19800 150000"
    using Math_round_150000
    by (simp add: selectContext_long [OF long] headChars_eq tailChars_eq len)
qed

theorem C6_coverage_witness:
  "length (replicate 48271 (0x61::char16)) \<le> maxChars \<and>
   length (replicate 48271 (0x61::char16)) = 48271 \<and>
   selectContext (replicate 48271 0x61) =
     \<lparr>usedText = replicate 48271 0x61, readNote = FullText\<rparr> \<and>
   maxChars < length (replicate 150000 (0x61::char16)) \<and>
   length (replicate 150000 (0x61::char16)) = 150000 \<and>
   readNote (selectContext (replicate 150000 0x61)) = Spliced 40 40200 19800 150000 \<and>
   (\<exists>p. readNote (selectContext (replicate 150000 0x61)) =
          Spliced p headChars tailChars (length (replicate 150000 (0x61::char16))) \<and>
        (2 * p - 1) * int (length (replicate 150000 (0x61::char16))) \<le> 200 * int maxChars \<and>
        200 * int maxChars < (2 * p + 1) * int (length (replicate 150000 (0x61::char16))))"
proof -
  have short: "length (replicate 48271 (0x61::char16)) \<le> maxChars"
    and long: "maxChars < length (replicate 150000 (0x61::char16))"
    by (simp_all add: maxChars_def)
  have l1: "length (replicate 48271 (0x61::char16)) = 48271"
    and l2: "length (replicate 150000 (0x61::char16)) = 150000"
    by simp_all
  show ?thesis
    using short long l1 l2
      C6_coverage [of "replicate 48271 0x61"] C6_coverage [of "replicate 150000 0x61"]
    by blast
qed


section \<open>Properties of \<open>extractKeyFromPath\<close>\<close>

lemma split_on_first: "split_on P xs = takeWhile (\<lambda>c. \<not> P c) xs # tl (split_on P xs)"
  by (induction xs) (auto split: list.splits)

lemma first_piece:
  "(case split_on P xs of [] \<Rightarrow> [] | k # _ \<Rightarrow> k) = takeWhile (\<lambda>c. \<not> P c) xs"
  by (subst split_on_first) simp

lemma isKeyChar_not_slash: "isKeyChar c \<Longrightarrow> c \<noteq> slash"
  by (auto simp: isKeyChar_def slash_def)

lemma isItemKey_no_slash: "isItemKey token \<Longrightarrow> \<forall>c\<in>set token. c \<noteq> slash"
  by (auto simp: isItemKey_def list_all_iff isKeyChar_not_slash)

lemma takeWhile_token:
  assumes "\<forall>c\<in>set token. c \<noteq> slash" and "rest = [] \<or> hd rest = slash"
  shows "takeWhile (\<lambda>c. c \<noteq> slash) (token @ rest) = token"
  using assms by (cases rest) (auto simp: takeWhile_append)

lemma upper_char:
  "isKeyChar c \<Longrightarrow> isUpperOrDigit (if 0x61 \<le> c \<and> c \<le> 0x7A then c - 0x20 else c)"
  unfolding isKeyChar_def isUpperOrDigit_def by unat_arith

lemma toUpperCase_key:
  assumes "isItemKey token"
  shows "length (toUpperCase token) = 8 \<and> list_all isUpperOrDigit (toUpperCase token)"
proof -
  have "\<forall>c\<in>set token. isUpperOrDigit (if 0x61 \<le> c \<and> c \<le> 0x7A then c - 0x20 else c)"
    using assms upper_char by (simp add: isItemKey_def list_all_iff split del: if_split)
  then have "list_all isUpperOrDigit (toUpperCase token)"
    unfolding toUpperCase_def list.pred_map o_def by (simp add: list_all_iff split del: if_split)
  then show ?thesis
    using assms by (simp add: toUpperCase_def isItemKey_def)
qed

lemma upper_char_id:
  "isUpperOrDigit c \<Longrightarrow> (if 0x61 \<le> c \<and> c \<le> 0x7A then c - 0x20 else c) = c"
  unfolding isUpperOrDigit_def by (auto simp: word_le_nat_alt)

lemma toUpperCase_upper:
  assumes "list_all isUpperOrDigit token"
  shows "toUpperCase token = token"
  unfolding toUpperCase_def
  using assms upper_char_id by (intro map_idI) (simp add: list_all_iff split del: if_split)

lemma extract_under_root:
  assumes norm: "backslashes_to_slashes fullPath =
      strip_trailing_slash (backslashes_to_slashes storage) @ slash # token @ rest"
    and key: "isItemKey token"
    and rest: "rest = [] \<or> hd rest = slash"
  shows "extractKeyFromPath storage fullPath = Some (toUpperCase token)"
proof -
  let ?root = "strip_trailing_slash (backslashes_to_slashes storage)"
  have pre: "prefix ?root (backslashes_to_slashes fullPath)"
    by (simp add: norm)
  have rel: "strip_leading_slash (drop (length ?root) (backslashes_to_slashes fullPath)) = token @ rest"
    by (simp add: norm strip_leading_slash_def)
  show ?thesis
    using key takeWhile_token [OF isItemKey_no_slash [OF key] rest]
    by (simp add: extractKeyFromPath_def Let_def pre rel first_piece)
qed

lemma extract_fallback:
  assumes "\<not> prefix (strip_trailing_slash (backslashes_to_slashes storage)) (backslashes_to_slashes fullPath)"
  shows "extractKeyFromPath storage fullPath =
     (if isItemKey (basename (dirname fullPath))
      then Some (toUpperCase (basename (dirname fullPath))) else None)"
proof -
  have "\<forall>c\<in>set (basename p). c \<noteq> slash" for p
    unfolding basename_def using set_takeWhileD by fastforce
  then have tw: "takeWhile (\<lambda>c. c \<noteq> slash) (basename p) = basename p" for p
    by (simp add: takeWhile_eq_all_conv)
  show ?thesis
    using assms by (simp add: extractKeyFromPath_def Let_def first_piece tw)
qed

lemma dropWhile_keep:
  "xs \<noteq> [] \<Longrightarrow> \<not> P (hd xs) \<Longrightarrow> dropWhile P (xs @ ys) = xs @ ys"
  by (cases xs) auto

lemma basename_leaf:
  assumes "\<forall>c\<in>set name. c \<noteq> slash" and "name \<noteq> []"
  shows "basename (dir @ slash # name) = name"
proof -
  have "hd (rev name) \<noteq> slash"
    using assms by (simp add: hd_rev)
  then have "dropWhile (\<lambda>c. c = slash) (rev name @ slash # rev dir) = rev name @ slash # rev dir"
    using assms by (intro dropWhile_keep) simp_all
  moreover have "takeWhile (\<lambda>c. c \<noteq> slash) (rev name @ slash # rev dir) = rev name"
    using assms by (simp add: takeWhile_append)
  ultimately show ?thesis
    by (simp add: basename_def)
qed

lemma dirname_parent:
  assumes nm: "\<forall>c\<in>set name. c \<noteq> slash" "name \<noteq> []"
    and fl: "\<forall>c\<in>set leaf. c \<noteq> slash" "leaf \<noteq> []"
  shows "dirname (dir @ slash # name @ slash # leaf) = dir @ slash # name"
proof -
  let ?path = "dir @ slash # name @ slash # leaf"
  obtain pre where tl_path: "tl ?path = pre @ name @ slash # leaf"
    and len: "length pre = length dir"
    and root: "hd ?path = slash \<or> pre \<noteq> []"
    by (cases dir) auto
  let ?r = "dropWhile (\<lambda>c. c \<noteq> slash) (dropWhile (\<lambda>c. c = slash) (rev (tl ?path)))"
  have "hd (rev leaf) \<noteq> slash"
    using fl by (simp add: hd_rev)
  then have d1: "dropWhile (\<lambda>c. c = slash) (rev (tl ?path)) = rev (tl ?path)"
    unfolding tl_path
    using fl dropWhile_keep [of "rev leaf" "\<lambda>c. c = slash" "slash # rev name @ rev pre"]
    by simp
  have r: "?r = slash # rev name @ rev pre"
    unfolding d1 unfolding tl_path using fl by (simp add: dropWhile_append)
  have lenr: "length ?r = length dir + 1 + length name"
    using len by (simp only: r) simp
  have "take (length ?r) ?path = dir @ slash # name"
    by (simp only: lenr) simp
  moreover have "length ?r \<noteq> 1"
    using nm by (simp only: r) simp
  moreover have "?r \<noteq> []"
    by (simp only: r) simp
  moreover have "?path \<noteq> []"
    by simp
  ultimately show ?thesis
    unfolding dirname_def Let_def by (simp only: if_False simp_thms)
qed

lemma parent_directory_name:
  assumes "\<forall>c\<in>set name. c \<noteq> slash" "name \<noteq> []" "\<forall>c\<in>set leaf. c \<noteq> slash" "leaf \<noteq> []"
  shows "basename (dirname (dir @ slash # name @ slash # leaf)) = name"
  using dirname_parent [OF assms] basename_leaf [OF assms(1,2)] by simp

lemma extract_touching_root:
  assumes norm: "backslashes_to_slashes fullPath =
      strip_trailing_slash (backslashes_to_slashes storage) @ token @ rest"
    and key: "isItemKey token"
    and rest: "rest = [] \<or> hd rest = slash"
  shows "extractKeyFromPath storage fullPath = Some (toUpperCase token)"
proof -
  let ?root = "strip_trailing_slash (backslashes_to_slashes storage)"
  have pre: "prefix ?root (backslashes_to_slashes fullPath)"
    by (simp add: norm)
  obtain c cs where token: "token = c # cs" and c: "c \<noteq> slash"
    using key isItemKey_no_slash [OF key] by (cases token) (auto simp: isItemKey_def)
  have rel: "strip_leading_slash (drop (length ?root) (backslashes_to_slashes fullPath)) = token @ rest"
    using c by (simp add: norm strip_leading_slash_def token)
  show ?thesis
    using key takeWhile_token [OF isItemKey_no_slash [OF key] rest]
    by (simp add: extractKeyFromPath_def Let_def pre rel first_piece)
qed

lemma strip_leading_slash_cases:
  "d = strip_leading_slash d \<or> d = slash # strip_leading_slash d"
  by (cases d) (simp_all add: strip_leading_slash_def)

lemma piece_and_rest:
  "\<exists>rest. rel = takeWhile (\<lambda>c. c \<noteq> slash) rel @ rest \<and> (rest = [] \<or> hd rest = slash)"
proof (intro exI conjI)
  show "rel = takeWhile (\<lambda>c. c \<noteq> slash) rel @ dropWhile (\<lambda>c. c \<noteq> slash) rel"
    by simp
  show "dropWhile (\<lambda>c. c \<noteq> slash) rel = [] \<or> hd (dropWhile (\<lambda>c. c \<noteq> slash) rel) = slash"
    using hd_dropWhile [of "\<lambda>c. c \<noteq> slash" rel] by auto
qed

lemma extract_Some_shape:
  assumes "extractKeyFromPath storage fullPath = Some key"
  shows "\<exists>token. isItemKey token \<and> key = toUpperCase token \<and>
     ((\<exists>rest. (rest = [] \<or> hd rest = slash) \<and>
         (backslashes_to_slashes fullPath =
            strip_trailing_slash (backslashes_to_slashes storage) @ token @ rest \<or>
          backslashes_to_slashes fullPath =
            strip_trailing_slash (backslashes_to_slashes storage) @ slash # token @ rest)) \<or>
      (\<not> prefix (strip_trailing_slash (backslashes_to_slashes storage))
           (backslashes_to_slashes fullPath) \<and>
       basename (dirname fullPath) = token))"
proof (cases "prefix (strip_trailing_slash (backslashes_to_slashes storage))
    (backslashes_to_slashes fullPath)")
  case False
  then show ?thesis
    using assms by (auto simp: extract_fallback split: if_splits)
next
  case True
  let ?root = "strip_trailing_slash (backslashes_to_slashes storage)"
  let ?d = "drop (length ?root) (backslashes_to_slashes fullPath)"
  let ?rel = "strip_leading_slash ?d"
  let ?token = "takeWhile (\<lambda>c. c \<noteq> slash) ?rel"
  have whole: "backslashes_to_slashes fullPath = ?root @ ?d"
    using True by (auto simp: prefix_def)
  obtain rest where rel: "?rel = ?token @ rest" and rest: "rest = [] \<or> hd rest = slash"
    using piece_and_rest [of ?rel] by blast
  have key: "isItemKey ?token" "key = toUpperCase ?token"
    using assms True by (auto simp: extractKeyFromPath_def Let_def first_piece split: if_splits)
  have "?d = ?token @ rest \<or> ?d = slash # ?token @ rest"
    using strip_leading_slash_cases [of ?d] rel by metis
  then have "backslashes_to_slashes fullPath = ?root @ ?token @ rest \<or>
      backslashes_to_slashes fullPath = ?root @ slash # ?token @ rest"
    using whole by metis
  then show ?thesis
    using key rest by blast
qed

lemma backslashes_to_slashes_append:
  "backslashes_to_slashes (xs @ backslash # ys) =
     backslashes_to_slashes xs @ slash # backslashes_to_slashes ys"
  by (simp add: backslashes_to_slashes_def)

lemma backslashes_to_slashes_id:
  "backslash \<notin> set p \<Longrightarrow> backslashes_to_slashes p = p"
  unfolding backslashes_to_slashes_def by (intro map_idI) auto

lemma dirname_no_slash:
  assumes "slash \<notin> set fullPath"
  shows "basename (dirname fullPath) = js ''.''"
proof -
  have none: "dropWhile (\<lambda>c. c \<noteq> slash) xs = []" if "slash \<notin> set xs" for xs :: jsstring
    using that by (induction xs) auto
  have dot: "basename (js ''.'') = js ''.''"
    by (simp add: basename_def js_def slash_def)
  have "dirname fullPath = js ''.''"
  proof (cases fullPath)
    case Nil
    then show ?thesis by (simp add: dirname_def)
  next
    case (Cons c cs)
    then have c: "hd fullPath \<noteq> slash" and cs: "slash \<notin> set (tl fullPath)"
      using assms by auto
    have "slash \<notin> set (dropWhile (\<lambda>c. c = slash) (rev (tl fullPath)))"
      using cs set_dropWhileD by fastforce
    then have r: "dropWhile (\<lambda>c. c \<noteq> slash) (dropWhile (\<lambda>c. c = slash) (rev (tl fullPath))) = []"
      by (rule none)
    have ne: "fullPath \<noteq> []"
      using Cons by simp
    show ?thesis
      unfolding dirname_def Let_def r using ne c by (simp only: if_False if_True simp_thms)
  qed
  then show ?thesis
    by (simp only: dot)
qed

lemma extract_backslash_fallback:
  assumes "\<not> prefix (strip_trailing_slash (backslashes_to_slashes storage))
      (backslashes_to_slashes fullPath)"
    and "slash \<notin> set fullPath"
  shows "extractKeyFromPath storage fullPath = None"
proof -
  have "\<not> isItemKey (js ''.'')"
    by (simp add: isItemKey_def js_def)
  then show ?thesis
    using extract_fallback [OF assms(1)] by (simp only: dirname_no_slash [OF assms(2)] if_False)
qed

subsection \<open>C9: the key of a path\<close>

text \<open>
  C9, as the specification states it, fails: the storage root is compared with the path
  as a string, not segment by segment. With the storage root \<open>/home/u/Zotero/storage\<close>
  the path \<open>/home/u/Zotero/storageABCD1234/x.pdf\<close> has the segments \<open>home\<close>, \<open>u\<close>, \<open>Zotero\<close>,
  \<open>storageABCD1234\<close> and \<open>x.pdf\<close>, none of which is a well-formed token, and no segment
  immediately under the storage root at all; yet the result is the key \<open>ABCD1234\<close>.
\<close>

theorem C9_token_beside_the_root:
  "extractKeyFromPath demo_storage sibling_pdf = Some demo_key \<and>
   segments sibling_pdf =
     [[], js ''home'', js ''u'', js ''Zotero'', js ''storageABCD1234'', js ''x.pdf''] \<and>
   filter isItemKey (segments sibling_pdf) = []"
  by (simp add: extractKeyFromPath_def segments_def sibling_pdf_def demo_storage_def
      demo_key_def js_def backslashes_to_slashes_def strip_trailing_slash_def
      strip_leading_slash_def slash_def backslash_def isItemKey_def isKeyChar_def
      toUpperCase_def)

text \<open>
  C9, amended: \<open>extractKeyFromPath\<close> is a function of the configured storage directory and
  the path alone. It returns a key exactly in these cases: the path, with every backslash
  turned into a slash, is the storage root (normalised the same way, one trailing slash
  removed), then at most one slash, then a well-formed 8-character alphanumeric token,
  and then nothing or a further slash; or the storage root is not a string prefix of the
  normalised path and the name of the immediate parent directory of the path as it was
  given is such a token. The key is the token uppercased (8 digits and capital letters).
  For \<open>dir/name/leaf\<close> the name of the parent directory is \<open>name\<close>; the fallback does not
  normalise separators, so a path without any slash outside the storage root has no key.
\<close>

theorem C9_extractKeyFromPath:
  "(extractKeyFromPath storage fullPath = Some key \<longleftrightarrow>
      (\<exists>token. isItemKey token \<and> key = toUpperCase token \<and>
         ((\<exists>rest. (rest = [] \<or> hd rest = slash) \<and>
             (backslashes_to_slashes fullPath =
                strip_trailing_slash (backslashes_to_slashes storage) @ token @ rest \<or>
              backslashes_to_slashes fullPath =
                strip_trailing_slash (backslashes_to_slashes storage) @ slash # token @ rest)) \<or>
          (\<not> prefix (strip_trailing_slash (backslashes_to_slashes storage))
               (backslashes_to_slashes fullPath) \<and>
           basename (dirname fullPath) = token)))) \<and>
   (isItemKey token' \<longrightarrow>
      length (toUpperCase token') = 8 \<and> list_all isUpperOrDigit (toUpperCase token')) \<and>
   backslashes_to_slashes (xs @ backslash # ys) =
     backslashes_to_slashes xs @ slash # backslashes_to_slashes ys \<and>
   (backslash \<notin> set p \<longrightarrow> backslashes_to_slashes p = p) \<and>
   strip_trailing_slash (r @ [slash]) = r \<and>
   (r = [] \<or> last r \<noteq> slash \<longrightarrow> strip_trailing_slash r = r) \<and>
   ((\<forall>c\<in>set name. c \<noteq> slash) \<and> name \<noteq> [] \<and> (\<forall>c\<in>set leaf. c \<noteq> slash) \<and> leaf \<noteq> [] \<longrightarrow>
      basename (dirname (dir @ slash # name @ slash # leaf)) = name) \<and>
   (\<not> prefix (strip_trailing_slash (backslashes_to_slashes storage))
        (backslashes_to_slashes fullPath) \<and> slash \<notin> set fullPath \<longrightarrow>
      extractKeyFromPath storage fullPath = None)"
proof (intro conjI impI)
  show "extractKeyFromPath storage fullPath = Some key \<longleftrightarrow>
      (\<exists>token. isItemKey token \<and> key = toUpperCase token \<and>
         ((\<exists>rest. (rest = [] \<or> hd rest = slash) \<and>
             (backslashes_to_slashes fullPath =
                strip_trailing_slash (backslashes_to_slashes storage) @ token @ rest \<or>
              backslashes_to_slashes fullPath =
                strip_trailing_slash (backslashes_to_slashes storage) @ slash # token @ rest)) \<or>
          (\<not> prefix (strip_trailing_slash (backslashes_to_slashes storage))
               (backslashes_to_slashes fullPath) \<and>
           basename (dirname fullPath) = token)))"
    (is "?L \<longleftrightarrow> ?R")
  proof
    assume ?L
    then show ?R by (rule extract_Some_shape)
  next
    assume ?R
    then obtain token where key: "isItemKey token" "key = toUpperCase token"
      and shape: "(\<exists>rest. (rest = [] \<or> hd rest = slash) \<and>
             (backslashes_to_slashes fullPath =
                strip_trailing_slash (backslashes_to_slashes storage) @ token @ rest \<or>
              backslashes_to_slashes fullPath =
                strip_trailing_slash (backslashes_to_slashes storage) @ slash # token @ rest)) \<or>
          (\<not> prefix (strip_trailing_slash (backslashes_to_slashes storage))
               (backslashes_to_slashes fullPath) \<and>
           basename (dirname fullPath) = token)"
      by blast
    from shape consider
        (touching) rest where "rest = [] \<or> hd rest = slash"
          "backslashes_to_slashes fullPath =
             strip_trailing_slash (backslashes_to_slashes storage) @ token @ rest"
      | (under) rest where "rest = [] \<or> hd rest = slash"
          "backslashes_to_slashes fullPath =
             strip_trailing_slash (backslashes_to_slashes storage) @ slash # token @ rest"
      | (parent) "\<not> prefix (strip_trailing_slash (backslashes_to_slashes storage))
               (backslashes_to_slashes fullPath)" "basename (dirname fullPath) = token"
      by blast
    then show ?L
    proof cases
      case touching
      then show ?thesis
        using extract_touching_root [of fullPath storage token rest] key by simp
    next
      case under
      then show ?thesis
        using extract_under_root [of fullPath storage token rest] key by simp
    next
      case parent
      then show ?thesis
        using key by (simp add: extract_fallback)
    qed
  qed
next
  assume "isItemKey token'"
  then show "length (toUpperCase token') = 8" and "list_all isUpperOrDigit (toUpperCase token')"
    using toUpperCase_key [of token'] by simp_all
next
  show "backslashes_to_slashes (xs @ backslash # ys) =
     backslashes_to_slashes xs @ slash # backslashes_to_slashes ys"
    by (rule backslashes_to_slashes_append)
next
  assume "backslash \<notin> set p"
  then show "backslashes_to_slashes p = p"
    by (rule backslashes_to_slashes_id)
next
  show "strip_trailing_slash (r @ [slash]) = r"
    by (simp add: strip_trailing_slash_def)
next
  assume "r = [] \<or> last r \<noteq> slash"
  then show "strip_trailing_slash r = r"
    by (auto simp: strip_trailing_slash_def)
next
  assume "(\<forall>c\<in>set name. c \<noteq> slash) \<and> name \<noteq> [] \<and> (\<forall>c\<in>set leaf. c \<noteq> slash) \<and> leaf \<noteq> []"
  then show "basename (dirname (dir @ slash # name @ slash # leaf)) = name"
    using parent_directory_name [of name leaf dir] by simp
next
  assume "\<not> prefix (strip_trailing_slash (backslashes_to_slashes storage))
        (backslashes_to_slashes fullPath) \<and> slash \<notin> set fullPath"
  then show "extractKeyFromPath storage fullPath = None"
    using extract_backslash_fallback [of storage fullPath] by simp
qed

lemma demo_pdf_shape:
  "backslashes_to_slashes demo_pdf =
     strip_trailing_slash (backslashes_to_slashes demo_storage) @ slash # js ''abcd1234'' @ js ''/paper.pdf''"
  by (simp add: demo_pdf_def demo_storage_def js_def backslashes_to_slashes_def
      strip_trailing_slash_def slash_def backslash_def)

lemma win_pdf_normalized:
  "backslashes_to_slashes win_pdf = js ''C:/Zotero/storage/abcd1234/paper.pdf''"
  "strip_trailing_slash (backslashes_to_slashes win_storage) = js ''C:/Zotero/storage''"
  by (simp_all add: win_pdf_def win_storage_def js_def backslashes_to_slashes_def
      strip_trailing_slash_def slash_def backslash_def)

lemma isItemKey_abcd1234: "isItemKey (js ''abcd1234'')"
  by (simp add: isItemKey_def isKeyChar_def js_def)

lemma toUpperCase_abcd1234: "toUpperCase (js ''abcd1234'') = demo_key"
  by (simp add: toUpperCase_def js_def demo_key_def)

theorem C9_extractKeyFromPath_witness:
  "extractKeyFromPath demo_storage demo_pdf = Some demo_key \<and>
   backslashes_to_slashes win_pdf = js ''C:/Zotero/storage/abcd1234/paper.pdf'' \<and>
   strip_trailing_slash (backslashes_to_slashes win_storage) = js ''C:/Zotero/storage'' \<and>
   extractKeyFromPath win_storage win_pdf = Some demo_key \<and>
   basename (dirname (js ''/tmp/x/abcd1234/paper.pdf'')) = js ''abcd1234'' \<and>
   extractKeyFromPath demo_storage (js ''/tmp/x/abcd1234/paper.pdf'') = Some demo_key \<and>
   slash \<notin> set win_other \<and>
   extractKeyFromPath win_storage win_other = None \<and>
   extractKeyFromPath demo_storage (js ''/home/u/Zotero/storage2/abcd1234/paper.pdf'') = None \<and>
   isItemKey (js ''abcd1234'') \<and> toUpperCase (js ''abcd1234'') = demo_key"
proof -
  have hd_rest: "js ''/paper.pdf'' = [] \<or> hd (js ''/paper.pdf'') = slash"
    by (simp add: js_def slash_def)
  have under: "extractKeyFromPath demo_storage demo_pdf = Some demo_key"
    using C9_extractKeyFromPath [where storage = demo_storage and fullPath = demo_pdf
        and key = demo_key, THEN conjunct1]
      demo_pdf_shape isItemKey_abcd1234 hd_rest toUpperCase_abcd1234 [symmetric]
    by blast
  have win_shape: "backslashes_to_slashes win_pdf =
      strip_trailing_slash (backslashes_to_slashes win_storage) @ slash # js ''abcd1234'' @ js ''/paper.pdf''"
    by (simp add: win_pdf_normalized) (simp add: js_def slash_def)
  have win: "extractKeyFromPath win_storage win_pdf = Some demo_key"
    using C9_extractKeyFromPath [where storage = win_storage and fullPath = win_pdf
        and key = demo_key, THEN conjunct1]
      win_shape isItemKey_abcd1234 hd_rest toUpperCase_abcd1234 [symmetric]
    by blast
  have not_pre: "\<not> prefix (strip_trailing_slash (backslashes_to_slashes demo_storage))
       (backslashes_to_slashes (js ''/tmp/x/abcd1234/paper.pdf''))"
    by (simp add: demo_storage_def js_def backslashes_to_slashes_def
        strip_trailing_slash_def slash_def backslash_def)
  have split_path: "js ''/tmp/x/abcd1234/paper.pdf'' =
      js ''/tmp/x'' @ slash # js ''abcd1234'' @ slash # js ''paper.pdf''"
    by (simp add: js_def slash_def)
  have parts: "(\<forall>c\<in>set (js ''abcd1234''). c \<noteq> slash) \<and> js ''abcd1234'' \<noteq> [] \<and>
      (\<forall>c\<in>set (js ''paper.pdf''). c \<noteq> slash) \<and> js ''paper.pdf'' \<noteq> []"
    by (simp add: js_def slash_def)
  have "basename (dirname (js ''/tmp/x'' @ slash # js ''abcd1234'' @ slash # js ''paper.pdf'')) =
      js ''abcd1234''"
    using C9_extractKeyFromPath [where name = "js ''abcd1234''" and leaf = "js ''paper.pdf''"
        and dir = "js ''/tmp/x''", THEN conjunct2, THEN conjunct2, THEN conjunct2,
        THEN conjunct2, THEN conjunct2, THEN conjunct2, THEN conjunct1] parts
    by (rule mp)
  then have parent: "basename (dirname (js ''/tmp/x/abcd1234/paper.pdf'')) = js ''abcd1234''"
    by (simp only: split_path)
  have fallback: "extractKeyFromPath demo_storage (js ''/tmp/x/abcd1234/paper.pdf'') = Some demo_key"
    using C9_extractKeyFromPath [where storage = demo_storage
        and fullPath = "js ''/tmp/x/abcd1234/paper.pdf''" and key = demo_key, THEN conjunct1]
      not_pre parent isItemKey_abcd1234 toUpperCase_abcd1234 [symmetric]
    by blast
  have no_slash: "slash \<notin> set win_other"
    by (simp add: win_other_def js_def slash_def backslash_def)
  have other_pre: "\<not> prefix (strip_trailing_slash (backslashes_to_slashes win_storage))
       (backslashes_to_slashes win_other)"
    by (simp add: win_pdf_normalized)
      (simp add: win_other_def js_def backslashes_to_slashes_def slash_def backslash_def)
  have other: "extractKeyFromPath win_storage win_other = None"
    using C9_extractKeyFromPath [where storage = win_storage and fullPath = win_other,
        THEN conjunct2, THEN conjunct2, THEN conjunct2, THEN conjunct2, THEN conjunct2,
        THEN conjunct2, THEN conjunct2] other_pre no_slash
    by simp
  have none: "extractKeyFromPath demo_storage (js ''/home/u/Zotero/storage2/abcd1234/paper.pdf'') = None"
    by (simp add: extractKeyFromPath_def demo_storage_def js_def backslashes_to_slashes_def
        strip_trailing_slash_def strip_leading_slash_def slash_def backslash_def isItemKey_def)
  show ?thesis
    using under win_pdf_normalized win parent fallback no_slash other none
      isItemKey_abcd1234 toUpperCase_abcd1234
    by (intro conjI)
qed

section \<open>Properties of \<open>resolveModel\<close>\<close>

lemma find_always: "find (\<lambda>m. True) xs = (case xs of [] \<Rightarrow> None | m # _ \<Rightarrow> Some m)"
  by (cases xs) simp_all

lemma find_gated:
  "find (\<lambda>m. b \<and> Q m) xs = (if b then find Q xs else None)"
  by (induction xs) auto

lemma find_Some_sat: "find P xs = Some x \<Longrightarrow> P x \<and> x \<in> set xs"
  by (auto simp: find_Some_iff)

lemma option_case_id: "(case x of None \<Rightarrow> None | Some m \<Rightarrow> Some m) = x"
  by (cases x) simp_all

lemma strip_punctuation_filter:
  "strip_punctuation s = filter (\<lambda>c. c \<notin> {0x2D, 0x5F, 0x2E}) s"
  by (induction s) auto

lemma spec_normalize_eq: "spec_normalize lower s = normalize_str lower s"
  by (simp add: spec_normalize_def normalize_str_def strip_punctuation_filter)

lemma split_on_nonempty: "split_on P xs \<noteq> []"
  by (induction xs) (auto split: list.splits)

lemma split_on_pieces: "l \<in> set (split_on P xs) \<Longrightarrow> c \<in> set l \<Longrightarrow> c \<in> set xs \<and> \<not> P c"
proof (induction xs arbitrary: l)
  case Nil
  then show ?case by simp
next
  case (Cons x xs)
  obtain h t where sp: "split_on P xs = h # t"
    using split_on_nonempty [of P xs] by (cases "split_on P xs") auto
  show ?case
  proof (cases "P x")
    case True
    then show ?thesis
      using Cons by auto
  next
    case False
    then have "l = x # h \<or> l \<in> set t"
      using Cons.prems(1) sp by simp
    then show ?thesis
    proof
      assume "l = x # h"
      then show ?thesis
        using Cons.IH [of h] Cons.prems(2) False sp by auto
    next
      assume "l \<in> set t"
      then show ?thesis
        using Cons.IH [of l] Cons.prems(2) sp by auto
    qed
  qed
qed

text \<open>
  Without an underscore in the preferred name, normalising its first three tokens only
  lowercases them: splitting has taken the hyphens and dots away.
\<close>

lemma family_prefix_normalized:
  assumes "0x5F \<notin> set preferred"
  shows "family_prefix lower preferred =
     spec_normalize lower (concat (first_three_tokens preferred))"
proof -
  let ?tokens = "take 3 (split_on (\<lambda>c. c = 0x2D \<or> c = 0x2E) preferred)"
  have "c \<notin> {0x2D, 0x5F, 0x2E}" if "c \<in> set (concat ?tokens)" for c
  proof -
    from that obtain l where "l \<in> set ?tokens" and cl: "c \<in> set l"
      by auto
    then have "l \<in> set (split_on (\<lambda>c. c = 0x2D \<or> c = 0x2E) preferred)"
      by (auto dest: in_set_takeD)
    note this cl
    then have "c \<in> set preferred \<and> \<not> (c = 0x2D \<or> c = 0x2E)"
      by (rule split_on_pieces)
    then show ?thesis
      using assms by auto
  qed
  then have "filter (\<lambda>c. c \<notin> {0x2D, 0x5F, 0x2E}) (concat ?tokens) = concat ?tokens"
    by (simp only: filter_id_conv) blast
  then show ?thesis
    by (simp only: family_prefix_def spec_normalize_def strip_punctuation_filter
        first_three_tokens_def)
qed

lemma resolve_refines:
  assumes "0x5F \<notin> set preferred"
  shows "resolveModel_from lower available preferred = spec_resolve lower available preferred"
proof (cases "available = []")
  case True
  then show ?thesis
    by (simp add: resolveModel_from_def spec_resolve_def tiers_def)
next
  case False
  have e: "exact_match preferred = (\<lambda>m. lm_family m = preferred)"
    and n: "normalized_match lower preferred =
      (\<lambda>m. normalize_str lower (lm_family m) = normalize_str lower preferred)"
    by (simp_all add: exact_match_def normalized_match_def spec_normalize_eq fun_eq_iff)
  have p: "prefix_match lower preferred =
      (\<lambda>m. prefix (family_prefix lower preferred) (normalize_str lower (lm_family m)))"
    by (simp add: prefix_match_def fun_eq_iff family_prefix_normalized [OF assms]
        spec_normalize_eq)
  have c: "find (claude_match lower preferred) available =
      (if prefix (js ''claude'') preferred
       then find (\<lambda>m. sublist (js ''claude'') (lm_family m) \<or>
                       sublist (js ''claude'') (toLowerCase lower (lm_name m))) available
       else None)"
    unfolding claude_match_def by (rule find_gated)
  have len: "(length available = 0) = False"
    using False by simp
  show ?thesis
    unfolding resolveModel_from_def spec_resolve_def tiers_def first_tier_match.simps
      c find_always e n p len if_False option_case_id
    by (rule refl)
qed

lemma first_tier_match_None:
  "first_tier_match Ps xs = None \<longleftrightarrow> (\<forall>P\<in>set Ps. \<forall>x\<in>set xs. \<not> P x)"
  by (induction Ps) (auto simp: find_None_iff dest: find_Some_sat split: option.splits)





lemma no_underscore_sonnet: "0x5F \<notin> set (js ''claude-sonnet-4-6'')"
  by (simp add: js_def)





lemma normalize_sonnet:
  "spec_normalize lower (js ''claude-sonnet-4.6'') = spec_normalize lower (js ''claude-sonnet-4-6'')"
  by (simp add: spec_normalize_def toLowerCase_def isAscii_def js_def)

lemma resolve_sonnet:
  assumes "lm_family m1 = js ''claude-sonnet-4.6''" and "lm_family m2 = js ''gpt-4o''"
  shows "resolveModel_from lower [m1, m2] (js ''claude-sonnet-4-6'') = Some m1"
    and "\<not> exact_match (js ''claude-sonnet-4-6'') m1"
    and "\<not> exact_match (js ''claude-sonnet-4-6'') m2"
    and "normalized_match lower (js ''claude-sonnet-4-6'') m1"
proof -
  show e1: "\<not> exact_match (js ''claude-sonnet-4-6'') m1"
    and e2: "\<not> exact_match (js ''claude-sonnet-4-6'') m2"
    using assms by (simp_all add: exact_match_def js_def)
  show n1: "normalized_match lower (js ''claude-sonnet-4-6'') m1"
    using assms normalize_sonnet by (simp add: normalized_match_def)
  show "resolveModel_from lower [m1, m2] (js ''claude-sonnet-4-6'') = Some m1"
    using e1 e2 n1
    by (simp add: resolve_refines [OF no_underscore_sonnet] spec_resolve_def tiers_def)
qed






subsection \<open>C3: the tiers of model resolution\<close>




section \<open>Properties of a pipeline run\<close>


lemma split_on_append_sep:
  "\<forall>c\<in>set xs. \<not> P c \<Longrightarrow> P y \<Longrightarrow> split_on P (xs @ y # ys) = xs # split_on P ys"
  by (induction xs) auto

lemma join_split: "join_with [y] (split_on (\<lambda>c. c = y) xs) = xs"
proof (induction xs)
  case Nil
  then show ?case by simp
next
  case (Cons x xs)
  obtain l ls where sp: "split_on (\<lambda>c. c = y) xs = l # ls"
    using split_on_nonempty [of "\<lambda>c. c = y" xs] by (cases "split_on (\<lambda>c. c = y) xs") auto
  show ?case
  proof (cases "x = y")
    case True
    then show ?thesis
      using Cons sp by simp
  next
    case False
    then show ?thesis
      using Cons sp by (cases ls) simp_all
  qed
qed

lemma status_and_text:
  assumes "trim raw = status @ newline # rest" and "newline \<notin> set status"
  shows "statusLine raw = status" and "pdfTextOf raw = rest"
proof -
  have sp: "split_on (\<lambda>c. c = newline) (trim raw) = status # split_on (\<lambda>c. c = newline) rest"
    using assms split_on_append_sep [of status "\<lambda>c. c = newline" newline rest] by auto
  show "statusLine raw = status"
    by (simp add: statusLine_def sp)
  show "pdfTextOf raw = rest"
    by (simp add: pdfTextOf_def sp join_split)
qed


lemma trim_empty_iff: "trim xs = [] \<longleftrightarrow> list_all isWhiteSpace xs"
proof
  assume "list_all isWhiteSpace xs"
  then have d: "dropWhile isWhiteSpace xs = []"
    by (simp add: list_all_iff)
  show "trim xs = []"
    by (simp only: trim_def d) simp
next
  assume "trim xs = []"
  then have all: "\<forall>x\<in>set (dropWhile isWhiteSpace xs). isWhiteSpace x"
    by (simp add: trim_def)
  have "dropWhile isWhiteSpace xs = []"
  proof (rule ccontr)
    assume ne: "dropWhile isWhiteSpace xs \<noteq> []"
    then have "\<not> isWhiteSpace (hd (dropWhile isWhiteSpace xs))"
      by (rule hd_dropWhile)
    moreover have "hd (dropWhile isWhiteSpace xs) \<in> set (dropWhile isWhiteSpace xs)"
      using ne by (rule hd_in_set)
    ultimately show False
      using all by blast
  qed
  then show "list_all isWhiteSpace xs"
    by (simp add: list_all_iff)
qed


lemma trace_emit: "trace (emit e s) = trace s @ [e]"
  by (simp add: emit_def)

lemma effects_since_self: "effects_since s s = []"
  by (simp add: effects_since_def)

lemma emit_frame [simp]:
  "now (emit e s) = now s"
  "recentlyProcessed (emit e s) = recentlyProcessed s"
  "pendingFiles (emit e s) = pendingFiles s"
  "timers (emit e s) = timers s"
  "nextId (emit e s) = nextId s"
  "fired (emit e s) = fired s"
  "cachedModels (emit e s) = cachedModels s"
  by (simp_all add: emit_def)

subsection \<open>The run as one step\<close>








subsection \<open>The run stage by stage\<close>

lemma suspend_eq:
  "suspend w a s =
     (if settles w a
      then s\<lparr>timers := timers s @ [\<lparr>tid = nextId s, due = now s + latency w a, task = Resume a\<rparr>],
             nextId := Suc (nextId s)\<rparr>
      else s)"
  by (simp add: suspend_def setTimeout_def)

lemma proceed_None [simp]: "proceed w (s, None) = s"
  by (simp add: proceed_def)

lemma proceed_Some [simp]: "proceed w (s, Some a) = suspend w a s"
  by (simp add: proceed_def)

lemma sendToModel_frame:
  "now (fst (sendToModel w k t ms s)) = now s"
  "recentlyProcessed (fst (sendToModel w k t ms s)) = recentlyProcessed s"
  "pendingFiles (fst (sendToModel w k t ms s)) = pendingFiles s"
  "timers (fst (sendToModel w k t ms s)) = timers s"
  "nextId (fst (sendToModel w k t ms s)) = nextId s"
  "fired (fst (sendToModel w k t ms s)) = fired s"
  "cachedModels (fst (sendToModel w k t ms s)) = cachedModels s"
  "prefix (trace s) (trace (fst (sendToModel w k t ms s)))"
  "\<forall>a'. snd (sendToModel w k t ms s) = Some a' \<longrightarrow> (\<forall>x. a' \<noteq> AwaitPrompt x)"
  by (simp_all add: sendToModel_def Let_def trace_emit split: option.splits)

text \<open>
  A stage leaves the clock, the debounce map, the pending callbacks and the history alone,
  adds to the trace, and takes a key out of \<open>recentlyProcessed\<close> only when the operator
  skips the run. Only the call of \<open>analyzePaper\<close> stops at the banner.
\<close>

lemma resume_frame:
  "now (fst (resume w a s)) = now s"
  "pendingFiles (fst (resume w a s)) = pendingFiles s"
  "timers (fst (resume w a s)) = timers s"
  "nextId (fst (resume w a s)) = nextId s"
  "fired (fst (resume w a s)) = fired s"
  "prefix (trace s) (trace (fst (resume w a s)))"
  "\<forall>a'. snd (resume w a s) = Some a' \<longrightarrow> (\<forall>x. a' \<noteq> AwaitPrompt x)"
proof -
  note send = sendToModel_frame
  show "now (fst (resume w a s)) = now s"
    by (cases a) (auto simp: startPipeline_def Let_def send split: sum.splits option.splits)
  show "pendingFiles (fst (resume w a s)) = pendingFiles s"
    by (cases a) (auto simp: startPipeline_def Let_def send split: sum.splits option.splits)
  show "timers (fst (resume w a s)) = timers s"
    by (cases a) (auto simp: startPipeline_def Let_def send split: sum.splits option.splits)
  show "nextId (fst (resume w a s)) = nextId s"
    by (cases a) (auto simp: startPipeline_def Let_def send split: sum.splits option.splits)
  show "fired (fst (resume w a s)) = fired s"
    by (cases a) (auto simp: startPipeline_def Let_def send split: sum.splits option.splits)
  show "prefix (trace s) (trace (fst (resume w a s)))"
  proof (cases a)
    case (AwaitModels k t)
    then show ?thesis
      using send(8) [of "s\<lparr>cachedModels := _\<rparr>" w k t] by (simp add: Let_def)
  qed (auto simp: startPipeline_def Let_def send trace_emit split: sum.splits option.splits)
  show "\<forall>a'. snd (resume w a s) = Some a' \<longrightarrow> (\<forall>x. a' \<noteq> AwaitPrompt x)"
    using send(9)
    by (cases a) (auto simp: startPipeline_def Let_def split: sum.splits option.splits)
qed

lemma resume_recent:
  "recentlyProcessed (fst (resume w a s)) =
     (case a of
        AwaitPrompt k \<Rightarrow>
          if startPrompt w k = SkipThisTime then recentlyProcessed s - {k}
          else recentlyProcessed s
      | _ \<Rightarrow> recentlyProcessed s)"
  by (cases a)
    (auto simp: startPipeline_def Let_def sendToModel_frame split: sum.splits option.splits)

text \<open>The run as one step is what the stages do one after the other.\<close>

lemma run_alone_send:
  "run_alone w (sendToModel w itemKey pdfText available s) =
     (case resolveModel_from (unicodeLower w) available (cfg_model w) of
        None \<Rightarrow> emit (ShowErrorMessage NoModelFound) s
      | Some m \<Rightarrow>
          let sel = selectContext pdfText;
              s3 = emit (SendRequest m (readNote sel) (usedText sel)) s
          in case sendRequest w m (readNote sel) (usedText sel) of
               Inl err \<Rightarrow> emit (ShowErrorMessage (AnalysisFailed err)) s3
             | Inr (chunks, Some err) \<Rightarrow> emit (ShowErrorMessage (AnalysisFailed err)) s3
             | Inr (chunks, None) \<Rightarrow>
                 let analysis = concat chunks;
                     s4 = emit (RunPython Save_analysis itemKey (Some analysis)) s3
                 in case save_analysis w itemKey analysis of
                      Inl err \<Rightarrow>
                        if err = SpawnError then s4
                        else emit (ShowWarningMessage (WritebackFailed err)) s4
                    | Inr result \<Rightarrow>
                        let s5 = emit (ShowInformationMessage (Completed itemKey)) s4
                        in if donePrompt w itemKey = FollowUpChat
                           then emit (OpenChat itemKey) s5 else s5)"
  by (simp add: sendToModel_def Let_def settles_def split: option.splits sum.splits prod.splits)

lemma pipeline_stages: "pipeline w itemKey s = run_alone w (startPipeline itemKey s)"
proof -
  let ?s1 = "emit (RunPython Pdf_to_text itemKey None) s"
  show ?thesis
  proof (cases "pdf_to_text w itemKey")
    case (Inl err)
    then show ?thesis
      by (simp add: pipeline_def startPipeline_def settles_def)
  next
    case (Inr raw)
    show ?thesis
    proof (cases "trim (pdfTextOf raw) = []")
      case True
      then show ?thesis
        using Inr by (simp add: pipeline_def startPipeline_def settles_def)
    next
      case False
      show ?thesis
      proof (cases "cachedModels s = []")
        case True
        then show ?thesis
          using Inr False
          by (simp add: pipeline_def startPipeline_def settles_def resolveModel_def
              getAvailableModels_def Let_def run_alone_send)
      next
        case False
        then show ?thesis
          using Inr \<open>trim (pdfTextOf raw) \<noteq> []\<close>
          by (simp add: pipeline_def startPipeline_def settles_def resolveModel_def
              getAvailableModels_def Let_def run_alone_send)
      qed
    qed
  qed
qed

subsection \<open>The call of \<open>analyzePaper\<close>\<close>

lemma analyzePaper_noop:
  "itemKey \<in> recentlyProcessed s \<Longrightarrow> analyzePaper w itemKey autoTriggered s = s"
  by (simp add: analyzePaper_def)

lemma settles_prompt [simp]: "settles w (AwaitPrompt k)"
  by (simp add: settles_def)

lemma analyzePaper_auto:
  assumes "itemKey \<notin> recentlyProcessed s"
  shows "analyzePaper w itemKey True s =
     s\<lparr>recentlyProcessed := insert itemKey (recentlyProcessed s),
       timers := timers s @
         [\<lparr>tid = nextId s, due = now s + 120000, task = ExpireRecent itemKey\<rparr>,
          \<lparr>tid = Suc (nextId s), due = now s + latency w (AwaitPrompt itemKey),
           task = Resume (AwaitPrompt itemKey)\<rparr>],
       nextId := Suc (Suc (nextId s)),
       trace := trace s @ [ShowInformationMessage (Detected itemKey)]\<rparr>"
  using assms by (simp add: analyzePaper_def Let_def setTimeout_def suspend_eq emit_def)

lemma analyzePaper_manual:
  assumes "itemKey \<notin> recentlyProcessed s"
  shows "analyzePaper w itemKey False s =
     (if settles w (AwaitExtract itemKey)
      then s\<lparr>recentlyProcessed := insert itemKey (recentlyProcessed s),
             timers := timers s @
               [\<lparr>tid = nextId s, due = now s + 120000, task = ExpireRecent itemKey\<rparr>,
                \<lparr>tid = Suc (nextId s), due = now s + latency w (AwaitExtract itemKey),
                 task = Resume (AwaitExtract itemKey)\<rparr>],
             nextId := Suc (Suc (nextId s)),
             trace := trace s @ [RunPython Pdf_to_text itemKey None]\<rparr>
      else s\<lparr>recentlyProcessed := insert itemKey (recentlyProcessed s),
             timers := timers s @
               [\<lparr>tid = nextId s, due = now s + 120000, task = ExpireRecent itemKey\<rparr>],
             nextId := Suc (nextId s),
             trace := trace s @ [RunPython Pdf_to_text itemKey None]\<rparr>)"
  using assms
  by (simp add: analyzePaper_def Let_def setTimeout_def suspend_eq emit_def startPipeline_def)

lemma analyzePaper_frame:
  "now (analyzePaper w itemKey a s) = now s"
  "pendingFiles (analyzePaper w itemKey a s) = pendingFiles s"
  "fired (analyzePaper w itemKey a s) = fired s"
  "cachedModels (analyzePaper w itemKey a s) = cachedModels s"
proof -
  consider (reserved) "itemKey \<in> recentlyProcessed s"
    | (auto) "itemKey \<notin> recentlyProcessed s" "a"
    | (manual) "itemKey \<notin> recentlyProcessed s" "\<not> a"
    by blast
  then have "now (analyzePaper w itemKey a s) = now s \<and>
    pendingFiles (analyzePaper w itemKey a s) = pendingFiles s \<and>
    fired (analyzePaper w itemKey a s) = fired s \<and>
    cachedModels (analyzePaper w itemKey a s) = cachedModels s"
    by cases (simp_all add: analyzePaper_noop analyzePaper_auto analyzePaper_manual)
  then show "now (analyzePaper w itemKey a s) = now s"
    "pendingFiles (analyzePaper w itemKey a s) = pendingFiles s"
    "fired (analyzePaper w itemKey a s) = fired s"
    "cachedModels (analyzePaper w itemKey a s) = cachedModels s"
    by simp_all
qed

lemma analyzePaper_recent:
  assumes "itemKey \<notin> recentlyProcessed s"
  shows "recentlyProcessed (analyzePaper w itemKey a s) = insert itemKey (recentlyProcessed s)"
  using assms by (cases a) (simp_all add: analyzePaper_auto analyzePaper_manual)

lemma analyzePaper_trace:
  assumes "itemKey \<notin> recentlyProcessed s"
  shows "trace (analyzePaper w itemKey a s) =
     trace s @ [if a then ShowInformationMessage (Detected itemKey)
                else RunPython Pdf_to_text itemKey None]"
  using assms by (cases a) (simp_all add: analyzePaper_auto analyzePaper_manual)

lemma analyzePaper_trace_grows: "prefix (trace s) (trace (analyzePaper w k a s))"
  by (cases "k \<in> recentlyProcessed s") (simp_all add: analyzePaper_noop analyzePaper_trace)

text \<open>
  The callbacks a call of \<open>analyzePaper\<close> registers: none for a reserved key; otherwise the
  expiry timer, due 120000 ms later, and the continuation of the run, unless the
  extractor cannot be spawned.
\<close>

lemma analyzePaper_timers:
  "\<exists>new. timers (analyzePaper w k a s) = timers s @ new \<and>
         map tid new = [nextId s ..< nextId (analyzePaper w k a s)] \<and>
         nextId s \<le> nextId (analyzePaper w k a s) \<and>
         (\<forall>x\<in>set new. \<not> starts_run (task x)) \<and>
         (\<forall>x\<in>set new. \<forall>key. releases w' key (task x) \<longrightarrow>
            key = k \<and> k \<notin> recentlyProcessed s \<and> now s \<le> due x)"
proof -
  consider (reserved) "k \<in> recentlyProcessed s"
    | (auto) "k \<notin> recentlyProcessed s" "a = True"
    | (manual) "k \<notin> recentlyProcessed s" "a = False"
    by blast
  then show ?thesis
  proof cases
    case reserved
    then show ?thesis by (simp add: analyzePaper_noop)
  next
    case auto
    show ?thesis
      unfolding auto(2) analyzePaper_auto [OF auto(1)]
      using auto(1) by (auto simp: releases_def)
  next
    case manual
    show ?thesis
      unfolding manual(2) analyzePaper_manual [OF manual(1)]
      using manual(1) by (auto simp: releases_def)
  qed
qed

lemma analyzePaper_expiry:
  assumes "k \<notin> recentlyProcessed s"
  shows "\<lparr>tid = nextId s, due = now s + 120000, task = ExpireRecent k\<rparr>
           \<in> set (timers (analyzePaper w k a s))"
  using assms by (cases a) (simp_all add: analyzePaper_auto analyzePaper_manual)

lemma suspend_existsSync: "suspend (w\<lparr>existsSync := f\<rparr>) a s = suspend w a s"
  by (cases a) (simp_all add: suspend_def settles_def)

lemma analyzePaper_existsSync:
  "analyzePaper (w\<lparr>existsSync := f\<rparr>) k a s = analyzePaper w k a s"
  by (simp add: analyzePaper_def Let_def startPipeline_def suspend_existsSync cong: if_cong)

section \<open>Properties of the event loop\<close>

lemma earliest_None: "earliest ts = None \<longleftrightarrow> ts = []"
  by (induction ts) (auto split: option.splits)

lemma earliest_Some:
  "earliest ts = Some u \<Longrightarrow> u \<in> set ts \<and> (\<forall>v\<in>set ts. due u \<le> due v)"
proof (induction ts arbitrary: u)
  case Nil
  then show ?case by simp
next
  case (Cons a ts)
  show ?case
  proof (cases "earliest ts")
    case None
    then show ?thesis
      using Cons.prems by (simp add: earliest_None)
  next
    case (Some v)
    then have "v \<in> set ts" and "\<forall>x\<in>set ts. due v \<le> due x"
      using Cons.IH by auto
    then show ?thesis
      using Cons.prems Some by (auto split: if_splits)
  qed
qed

lemma nextTimer_Some:
  assumes "nextTimer T s = Some tm"
  shows "tm \<in> set (timers s)" and "due tm \<le> T"
    and "\<forall>u\<in>set (timers s). due u \<le> T \<longrightarrow> due tm \<le> due u"
  using earliest_Some [OF assms [unfolded nextTimer_def]] by auto

lemma nextTimer_None: "nextTimer T s = None \<longleftrightarrow> (\<forall>u\<in>set (timers s). T < due u)"
  by (auto simp: nextTimer_def earliest_None filter_empty_conv not_le)

lemma advance_stop: "nextTimer T s = None \<Longrightarrow> advance w T s = s\<lparr>now := max (now s) T\<rparr>"
  by simp

lemma advance_step: "nextTimer T s = Some tm \<Longrightarrow> advance w T s = advance w T (fire w tm s)"
  by simp

declare advance.simps [simp del]

text \<open>What running one timer does to each part of the state.\<close>

lemma debounceFired_timers:
  "timers (debounceFired w p s) = timers s \<or>
   (\<exists>k. timers (debounceFired w p s) =
      timers s @ [\<lparr>tid = nextId s, due = now s + 5000, task = GraceDone k\<rparr>])"
  by (simp add: debounceFired_def Let_def setTimeout_def split: option.splits)

lemma debounceFired_frame:
  "now (debounceFired w p s) = now s"
  "recentlyProcessed (debounceFired w p s) = recentlyProcessed s"
  "fired (debounceFired w p s) = fired s"
  "trace (debounceFired w p s) = trace s \<or> trace (debounceFired w p s) = trace s @ [LogNoKey p]"
  "pendingFiles (debounceFired w p s) = (pendingFiles s)(p := None)"
  by (simp_all add: debounceFired_def Let_def setTimeout_def emit_def split: option.splits)

lemma suspend_frame:
  "now (suspend w a s) = now s"
  "recentlyProcessed (suspend w a s) = recentlyProcessed s"
  "pendingFiles (suspend w a s) = pendingFiles s"
  "fired (suspend w a s) = fired s"
  "trace (suspend w a s) = trace s"
  "cachedModels (suspend w a s) = cachedModels s"
  by (simp_all add: suspend_eq)

lemma proceed_frame:
  "now (proceed w r) = now (fst r)"
  "recentlyProcessed (proceed w r) = recentlyProcessed (fst r)"
  "pendingFiles (proceed w r) = pendingFiles (fst r)"
  "fired (proceed w r) = fired (fst r)"
  "trace (proceed w r) = trace (fst r)"
  "cachedModels (proceed w r) = cachedModels (fst r)"
  by (simp_all add: proceed_def suspend_frame split: option.splits)

text \<open>
  The callbacks after a callback has run: those before, and new ones with fresh handles.
  No new one is a debounce callback; only a callback of the file watcher registers one
  that can start a run; and one that releases a key is registered by the call of
  \<open>analyzePaper\<close> that has just reserved that key.
\<close>

lemma runTask_timers:
  "\<exists>new. timers (runTask w t s) = timers s @ new \<and>
         map tid new = [nextId s ..< nextId (runTask w t s)] \<and>
         nextId s \<le> nextId (runTask w t s) \<and>
         (\<forall>x\<in>set new. \<forall>p. task x \<noteq> DebounceFire p) \<and>
         (\<not> starts_run t \<longrightarrow> (\<forall>x\<in>set new. \<not> starts_run (task x))) \<and>
         (\<forall>x\<in>set new. \<forall>key. releases w' key (task x) \<longrightarrow>
            key \<notin> recentlyProcessed s \<and> now s \<le> due x)"
proof (cases t)
  case (ExpireRecent k)
  then show ?thesis by (simp add: runTask_def)
next
  case (DebounceFire p)
  then show ?thesis
    by (auto simp: runTask_def debounceFired_def Let_def setTimeout_def emit_def releases_def
        split: option.splits)
next
  case (GraceDone k)
  obtain new where "timers (analyzePaper w k True s) = timers s @ new"
    "map tid new = [nextId s ..< nextId (analyzePaper w k True s)]"
    "nextId s \<le> nextId (analyzePaper w k True s)"
    "\<forall>x\<in>set new. \<not> starts_run (task x)"
    "\<forall>x\<in>set new. \<forall>key. releases w' key (task x) \<longrightarrow>
        key = k \<and> k \<notin> recentlyProcessed s \<and> now s \<le> due x"
    using analyzePaper_timers [where w = w and k = k and a = True and s = s and w' = w']
    by blast
  moreover from this(4) have "\<forall>x\<in>set new. \<forall>p. task x \<noteq> DebounceFire p"
    by fastforce
  ultimately show ?thesis
    unfolding GraceDone runTask_def graceDone_def task.case by blast
next
  case (Resume a)
  obtain s1 nxt where r: "resume w a s = (s1, nxt)"
    by (cases "resume w a s")
  have f: "timers s1 = timers s" "nextId s1 = nextId s" "now s1 = now s"
    and np: "\<forall>a'. nxt = Some a' \<longrightarrow> (\<forall>x. a' \<noteq> AwaitPrompt x)"
    using resume_frame [where w = w and a = a and s = s] r by simp_all
  show ?thesis
  proof (cases nxt)
    case None
    then show ?thesis
      using f by (simp add: Resume runTask_def r)
  next
    case (Some a')
    then show ?thesis
      using f np by (auto simp: Resume runTask_def r suspend_eq releases_def)
  qed
qed

lemma runTask_fired: "fired (runTask w t s) = fired s"
  by (cases t)
    (simp_all add: runTask_def graceDone_def debounceFired_frame analyzePaper_frame
      proceed_frame resume_frame)

lemma runTask_now: "now (runTask w t s) = now s"
  by (cases t)
    (simp_all add: runTask_def graceDone_def debounceFired_frame analyzePaper_frame
      proceed_frame resume_frame)

lemma runTask_pendingFiles:
  "pendingFiles (runTask w t s) =
     (case t of DebounceFire p \<Rightarrow> (pendingFiles s)(p := None) | _ \<Rightarrow> pendingFiles s)"
  by (cases t)
    (simp_all add: runTask_def graceDone_def debounceFired_frame analyzePaper_frame
      proceed_frame resume_frame)

lemma fire_fired: "fired (fire w tm s) = fired s @ [(due tm, task tm)]"
  by (simp add: fire_def runTask_fired)

lemma fire_now: "now (fire w tm s) = due tm"
  by (simp add: fire_def runTask_now)

lemma fire_pendingFiles:
  "pendingFiles (fire w tm s) =
     (case task tm of DebounceFire p \<Rightarrow> (pendingFiles s)(p := None) | _ \<Rightarrow> pendingFiles s)"
  by (simp add: fire_def runTask_pendingFiles split: task.splits)

lemma fire_timers:
  "\<exists>new. timers (fire w tm s) = filter (\<lambda>t. tid t \<noteq> tid tm) (timers s) @ new \<and>
         map tid new = [nextId s ..< nextId (fire w tm s)] \<and>
         nextId s \<le> nextId (fire w tm s) \<and>
         (\<forall>x\<in>set new. \<forall>p. task x \<noteq> DebounceFire p) \<and>
         (\<not> starts_run (task tm) \<longrightarrow> (\<forall>x\<in>set new. \<not> starts_run (task x))) \<and>
         (\<forall>x\<in>set new. \<forall>key. releases w' key (task x) \<longrightarrow>
            key \<notin> recentlyProcessed s \<and> due tm \<le> due x)"
  using runTask_timers [where w = w and t = "task tm" and w' = w' and
      s = "s\<lparr>now := due tm, timers := filter (\<lambda>t. tid t \<noteq> tid tm) (timers s),
         fired := fired s @ [(due tm, task tm)]\<rparr>"]
  by (simp add: fire_def)

lemma fire_wf:
  assumes "wf_timers s"
  shows "wf_timers (fire w tm s)"
proof -
  obtain new where t: "timers (fire w tm s) = filter (\<lambda>t. tid t \<noteq> tid tm) (timers s) @ new"
    and n: "map tid new = [nextId s ..< nextId (fire w tm s)]"
    using fire_timers [where w = w and tm = tm and s = s and w' = w] by blast
  have d: "distinct (map tid (filter (\<lambda>t. tid t \<noteq> tid tm) (timers s)))"
    using assms by (simp add: wf_timers_def distinct_map_filter)
  have b: "\<forall>t\<in>set (filter (\<lambda>t. tid t \<noteq> tid tm) (timers s)). tid t < nextId s"
    using assms by (simp add: wf_timers_def)
  have dn: "distinct (map tid new)"
    by (simp add: n)
  have bn: "\<forall>x\<in>set new. nextId s \<le> tid x \<and> tid x < nextId (fire w tm s)"
  proof
    fix x
    assume "x \<in> set new"
    then have "tid x \<in> set (map tid new)"
      by simp
    then show "nextId s \<le> tid x \<and> tid x < nextId (fire w tm s)"
      unfolding n by simp
  qed
  have le: "nextId s \<le> nextId (fire w tm s)"
    using fire_timers [where w = w and tm = tm and s = s and w' = w] by blast
  show ?thesis
    unfolding wf_timers_def t using d b dn bn le by fastforce
qed

lemma fire_keeps_other:
  assumes "wf_timers s" and "u \<in> set (timers s)" and "tm \<in> set (timers s)" and "u \<noteq> tm"
  shows "u \<in> set (timers (fire w tm s))"
proof -
  have "tid u \<noteq> tid tm"
    using assms by (auto simp: wf_timers_def distinct_map inj_on_def)
  then show ?thesis
    using fire_timers [where w = w and tm = tm and s = s and w' = w] assms(2) by auto
qed

lemma fire_pending_for:
  assumes "wf_timers s" and "tm \<in> set (timers s)"
  shows "pending_for (DebounceFire p) (fire w tm s) =
     filter (\<lambda>t. t \<noteq> tm) (pending_for (DebounceFire p) s)"
proof -
  have eq: "tid t \<noteq> tid tm \<longleftrightarrow> t \<noteq> tm" if "t \<in> set (timers s)" for t
    using assms that by (auto simp: wf_timers_def distinct_map inj_on_def)
  have same: "filter (\<lambda>t. tid t \<noteq> tid tm) (timers s) = filter (\<lambda>t. t \<noteq> tm) (timers s)"
    by (rule filter_cong) (simp_all add: eq)
  obtain new where t: "timers (fire w tm s) = filter (\<lambda>t. tid t \<noteq> tid tm) (timers s) @ new"
    and n: "\<forall>x\<in>set new. \<forall>p. task x \<noteq> DebounceFire p"
    using fire_timers [where w = w and tm = tm and s = s and w' = w] by blast
  have "filter (\<lambda>tm. task tm = DebounceFire p) new = []"
    using n by (simp add: filter_empty_conv)
  then show ?thesis
    by (simp add: pending_for_def t same conj_commute)
qed

lemma advance_wf: "wf_timers s \<Longrightarrow> wf_timers (advance w T s)"
proof (induction w T s rule: advance.induct)
  case (1 w T s)
  show ?case
  proof (cases "nextTimer T s")
    case None
    then show ?thesis
      using "1.prems" by (simp add: advance_stop wf_timers_def)
  next
    case (Some tm)
    then show ?thesis
      using "1.IH" [OF Some] "1.prems" by (simp add: advance_step fire_wf)
  qed
qed

lemma advance_now: "now s \<le> T \<Longrightarrow> now (advance w T s) = T"
proof (induction w T s rule: advance.induct)
  case (1 w T s)
  show ?case
  proof (cases "nextTimer T s")
    case None
    then show ?thesis
      using "1.prems" by (simp add: advance_stop)
  next
    case (Some tm)
    then have "now (fire w tm s) \<le> T"
      using nextTimer_Some(2) [OF Some] by (simp add: fire_now)
    then show ?thesis
      using "1.IH" [OF Some] Some by (simp add: advance_step)
  qed
qed

lemma advance_fired_grows: "prefix (fired s) (fired (advance w T s))"
proof (induction w T s rule: advance.induct)
  case (1 w T s)
  show ?case
  proof (cases "nextTimer T s")
    case None
    then show ?thesis
      by (simp add: advance_stop)
  next
    case (Some tm)
    have "prefix (fired s) (fired (fire w tm s))"
      by (simp add: fire_fired)
    then show ?thesis
      using "1.IH" [OF Some] Some by (auto simp: advance_step intro: prefix_order.trans)
  qed
qed

text \<open>A pending timer that is due by \<open>T\<close> has run once the loop has advanced to \<open>T\<close>.\<close>

lemma advance_runs_due:
  assumes "wf_timers s" and "tm \<in> set (timers s)" and "due tm \<le> T"
  shows "(due tm, task tm) \<in> set (fired (advance w T s))"
  using assms
proof (induction w T s rule: advance.induct)
  case (1 w T s)
  from "1.prems" have "nextTimer T s \<noteq> None"
    by (auto simp: nextTimer_None not_less)
  then obtain u where u: "nextTimer T s = Some u"
    by auto
  show ?case
  proof (cases "u = tm")
    case True
    have "(due tm, task tm) \<in> set (fired (fire w tm s))"
      by (simp add: fire_fired)
    then show ?thesis
      using advance_fired_grows [of "fire w tm s" w T] u True
      by (auto simp: advance_step prefix_def)
  next
    case False
    have "tm \<in> set (timers (fire w u s))"
      using "1.prems" nextTimer_Some(1) [OF u] False by (intro fire_keeps_other) auto
    then show ?thesis
      using "1.IH" [OF u] "1.prems" u by (simp add: advance_step fire_wf)
  qed
qed

text \<open>While no debounce timer of a path is due, the loop leaves the debounce state of the path alone.\<close>

lemma advance_keeps_debounce:
  assumes "wf_timers s" and "\<forall>t\<in>set (pending_for (DebounceFire p) s). T < due t"
  shows "pending_for (DebounceFire p) (advance w T s) = pending_for (DebounceFire p) s \<and>
         pendingFiles (advance w T s) p = pendingFiles s p \<and>
         fired_for (DebounceFire p) (advance w T s) = fired_for (DebounceFire p) s"
  using assms
proof (induction w T s rule: advance.induct)
  case (1 w T s)
  show ?case
  proof (cases "nextTimer T s")
    case None
    then show ?thesis
      by (simp add: advance_stop pending_for_def fired_for_def)
  next
    case (Some tm)
    have tm: "tm \<in> set (timers s)" "due tm \<le> T"
      using nextTimer_Some [OF Some] by auto
    then have not_p: "task tm \<noteq> DebounceFire p"
      using "1.prems"(2) by (auto simp: pending_for_def)
    then have "tm \<notin> set (pending_for (DebounceFire p) s)"
      by (simp add: pending_for_def)
    then have keep: "pending_for (DebounceFire p) (fire w tm s) = pending_for (DebounceFire p) s"
      using fire_pending_for [OF "1.prems"(1) tm(1), of p w]
      by (simp add: filter_id_conv) metis
    have pf: "pendingFiles (fire w tm s) p = pendingFiles s p"
      using not_p by (auto simp: fire_pendingFiles split: task.splits)
    have ff: "fired_for (DebounceFire p) (fire w tm s) = fired_for (DebounceFire p) s"
      using not_p by (simp add: fired_for_def fire_fired)
    show ?thesis
      using "1.IH" [OF Some fire_wf [OF "1.prems"(1)]] "1.prems"(2) keep pf ff Some
      by (simp add: advance_step)
  qed
qed

text \<open>One pending debounce timer that is due runs exactly once.\<close>

lemma advance_fires_once:
  assumes "wf_timers s" and "pending_for (DebounceFire p) s = [x]" and "due x \<le> T"
  shows "fired_for (DebounceFire p) (advance w T s) =
           fired_for (DebounceFire p) s @ [(due x, DebounceFire p)]"
  using assms
proof (induction w T s rule: advance.induct)
  case (1 w T s)
  have "x \<in> set (pending_for (DebounceFire p) s)"
    using "1.prems"(2) by simp
  then have x: "x \<in> set (timers s)" "task x = DebounceFire p"
    by (simp_all add: pending_for_def)
  then have "nextTimer T s \<noteq> None"
    using "1.prems"(3) by (auto simp: nextTimer_None not_less)
  then obtain tm where Some: "nextTimer T s = Some tm"
    by auto
  have tm: "tm \<in> set (timers s)" "due tm \<le> T"
    using nextTimer_Some [OF Some] by auto
  show ?case
  proof (cases "tm = x")
    case True
    have "pending_for (DebounceFire p) (fire w tm s) = []"
      using fire_pending_for [OF "1.prems"(1) tm(1), of p w] "1.prems"(2) True by simp
    then have "fired_for (DebounceFire p) (advance w T (fire w tm s)) =
        fired_for (DebounceFire p) (fire w tm s)"
      using advance_keeps_debounce [where s = "fire w tm s" and p = p and T = T and w = w]
        fire_wf [OF "1.prems"(1), of w tm]
      by simp
    then show ?thesis
      using Some True x(2) by (simp add: advance_step fired_for_def fire_fired)
  next
    case False
    then have "tm \<notin> set (pending_for (DebounceFire p) s)"
      using "1.prems"(2) by simp
    then have not_p: "task tm \<noteq> DebounceFire p"
      using tm(1) by (simp add: pending_for_def)
    have keep: "pending_for (DebounceFire p) (fire w tm s) = [x]"
      using fire_pending_for [OF "1.prems"(1) tm(1), of p w] "1.prems"(2) False by simp
    have ff: "fired_for (DebounceFire p) (fire w tm s) = fired_for (DebounceFire p) s"
      using not_p by (simp add: fired_for_def fire_fired)
    show ?thesis
      using "1.IH" [OF Some fire_wf [OF "1.prems"(1)] keep "1.prems"(3)] ff Some
      by (simp add: advance_step)
  qed
qed

lemma handleNewFile_other: "\<not> suffix (js ''.pdf'') p \<Longrightarrow> handleNewFile p s = s"
  by (simp add: handleNewFile_def)

lemma handleNewFile_timers:
  assumes "suffix (js ''.pdf'') p"
  shows "timers (handleNewFile p s) =
     (case pendingFiles s p of
        None \<Rightarrow> timers s
      | Some i \<Rightarrow> filter (\<lambda>t. tid t \<noteq> i) (timers s)) @
     [\<lparr>tid = nextId s, due = now s + 3000, task = DebounceFire p\<rparr>]"
    and "pendingFiles (handleNewFile p s) = (pendingFiles s)(p \<mapsto> nextId s)"
    and "nextId (handleNewFile p s) = Suc (nextId s)"
    and "now (handleNewFile p s) = now s"
    and "fired (handleNewFile p s) = fired s"
    and "trace (handleNewFile p s) = trace s"
    and "recentlyProcessed (handleNewFile p s) = recentlyProcessed s"
  using assms
  by (simp_all add: handleNewFile_def Let_def setTimeout_def clearTimeout_def split: option.splits)

lemma handleNewFile_wf:
  assumes "wf_timers s"
  shows "wf_timers (handleNewFile p s)"
proof (cases "suffix (js ''.pdf'') p")
  case False
  then show ?thesis
    using assms by (simp add: handleNewFile_other)
next
  case True
  have d: "distinct (map tid (filter P (timers s)))" for P
    using assms by (simp add: wf_timers_def distinct_map_filter)
  show ?thesis
    using assms d
    by (auto simp: wf_timers_def handleNewFile_timers [OF True] less_Suc_eq split: option.splits)
qed

text \<open>A notification leaves exactly one pending debounce timer for the path: the new one.\<close>

lemma handleNewFile_reschedules:
  assumes pdf: "suffix (js ''.pdf'') p" and wf: "wf_timers s"
    and one: "pending_for (DebounceFire p) s = [] \<or>
      (\<exists>x. pending_for (DebounceFire p) s = [x] \<and> pendingFiles s p = Some (tid x))"
  shows "pending_for (DebounceFire p) (handleNewFile p s) =
     [\<lparr>tid = nextId s, due = now s + 3000, task = DebounceFire p\<rparr>]"
proof -
  have "filter (\<lambda>tm. task tm = DebounceFire p)
      (case pendingFiles s p of None \<Rightarrow> timers s
       | Some i \<Rightarrow> filter (\<lambda>t. tid t \<noteq> i) (timers s)) = []"
  proof (cases "pending_for (DebounceFire p) s = []")
    case True
    then have "filter (\<lambda>tm. task tm = DebounceFire p) (filter P (timers s)) = []" for P
      by (auto simp: pending_for_def filter_empty_conv)
    then show ?thesis
      using True by (simp add: pending_for_def split: option.splits)
  next
    case False
    then obtain x where x: "pending_for (DebounceFire p) s = [x]" "pendingFiles s p = Some (tid x)"
      using one by auto
    have "filter (\<lambda>t. tid t \<noteq> tid x) (pending_for (DebounceFire p) s) = []"
      by (simp add: x(1))
    then show ?thesis
      by (simp add: x(2) pending_for_def conj_commute)
  qed
  then show ?thesis
    by (simp add: pending_for_def handleNewFile_timers(1) [OF pdf])
qed

lemma notifications_burst:
  assumes pdf: "suffix (js ''.pdf'') p"
    and chain: "successively (\<lambda>a b. a \<le> b \<and> b < a + 3000) (t # ts)"
    and start: "now s \<le> t"
    and wf: "wf_timers s"
    and one: "pending_for (DebounceFire p) s = [] \<or>
      (\<exists>x. pending_for (DebounceFire p) s = [x] \<and> pendingFiles s p = Some (tid x))"
    and later: "\<forall>x\<in>set (pending_for (DebounceFire p) s). t < due x"
  shows "wf_timers (notifications w p (t # ts) s) \<and>
     now (notifications w p (t # ts) s) = last (t # ts) \<and>
     fired_for (DebounceFire p) (notifications w p (t # ts) s) = fired_for (DebounceFire p) s \<and>
     (\<exists>i. pending_for (DebounceFire p) (notifications w p (t # ts) s) =
            [\<lparr>tid = i, due = last (t # ts) + 3000, task = DebounceFire p\<rparr>] \<and>
          pendingFiles (notifications w p (t # ts) s) p = Some i)"
  using chain start wf one later
proof (induction ts arbitrary: t s)
  case Nil
  let ?s1 = "advance w t s"
  have k: "pending_for (DebounceFire p) ?s1 = pending_for (DebounceFire p) s"
    "pendingFiles ?s1 p = pendingFiles s p"
    "fired_for (DebounceFire p) ?s1 = fired_for (DebounceFire p) s"
    using advance_keeps_debounce [OF Nil.prems(3) Nil.prems(5), of w] by simp_all
  have wf1: "wf_timers ?s1"
    using Nil.prems(3) by (rule advance_wf)
  have now1: "now ?s1 = t"
    using Nil.prems(2) by (rule advance_now)
  have one1: "pending_for (DebounceFire p) ?s1 = [] \<or>
      (\<exists>x. pending_for (DebounceFire p) ?s1 = [x] \<and> pendingFiles ?s1 p = Some (tid x))"
    using Nil.prems(4) k by simp
  show ?case
    using handleNewFile_reschedules [OF pdf wf1 one1] handleNewFile_wf [OF wf1, of p]
      handleNewFile_timers [OF pdf, of ?s1] k now1
    by (simp add: fired_for_def)
next
  case (Cons t' ts)
  let ?s1 = "advance w t s"
  let ?s2 = "handleNewFile p ?s1"
  have k: "pending_for (DebounceFire p) ?s1 = pending_for (DebounceFire p) s"
    "pendingFiles ?s1 p = pendingFiles s p"
    "fired_for (DebounceFire p) ?s1 = fired_for (DebounceFire p) s"
    using advance_keeps_debounce [OF Cons.prems(3) Cons.prems(5), of w] by simp_all
  have wf1: "wf_timers ?s1"
    using Cons.prems(3) by (rule advance_wf)
  have now1: "now ?s1 = t"
    using Cons.prems(2) by (rule advance_now)
  have one1: "pending_for (DebounceFire p) ?s1 = [] \<or>
      (\<exists>x. pending_for (DebounceFire p) ?s1 = [x] \<and> pendingFiles ?s1 p = Some (tid x))"
    using Cons.prems(4) k by simp
  have p2: "pending_for (DebounceFire p) ?s2 =
      [\<lparr>tid = nextId ?s1, due = t + 3000, task = DebounceFire p\<rparr>]"
    using handleNewFile_reschedules [OF pdf wf1 one1] now1 by simp
  have pf2: "pendingFiles ?s2 p = Some (nextId ?s1)"
    by (simp add: handleNewFile_timers(2) [OF pdf])
  have f2: "fired_for (DebounceFire p) ?s2 = fired_for (DebounceFire p) s"
    using k(3) by (simp add: fired_for_def handleNewFile_timers(5) [OF pdf])
  have chain': "successively (\<lambda>a b. a \<le> b \<and> b < a + 3000) (t' # ts)"
    and gap: "t \<le> t'" "t' < t + 3000"
    using Cons.prems(1) by simp_all
  have "wf_timers (notifications w p (t' # ts) ?s2) \<and>
     now (notifications w p (t' # ts) ?s2) = last (t' # ts) \<and>
     fired_for (DebounceFire p) (notifications w p (t' # ts) ?s2) =
       fired_for (DebounceFire p) ?s2 \<and>
     (\<exists>i. pending_for (DebounceFire p) (notifications w p (t' # ts) ?s2) =
            [\<lparr>tid = i, due = last (t' # ts) + 3000, task = DebounceFire p\<rparr>] \<and>
          pendingFiles (notifications w p (t' # ts) ?s2) p = Some i)"
  proof (rule Cons.IH [OF chain'])
    show "now ?s2 \<le> t'"
      using gap(1) now1 by (simp add: handleNewFile_timers(4) [OF pdf])
    show "wf_timers ?s2"
      using wf1 by (rule handleNewFile_wf)
    show "pending_for (DebounceFire p) ?s2 = [] \<or>
      (\<exists>x. pending_for (DebounceFire p) ?s2 = [x] \<and> pendingFiles ?s2 p = Some (tid x))"
      by (simp add: p2 pf2)
    show "\<forall>x\<in>set (pending_for (DebounceFire p) ?s2). t' < due x"
      using gap(2) by (simp add: p2)
  qed
  then show ?case
    by (simp add: f2)
qed

lemma wf_init: "wf_timers init"
  by (simp add: wf_timers_def init_def)

lemma demo_pdf_suffix: "suffix (js ''.pdf'') demo_pdf"
  by (simp add: demo_pdf_def js_def suffix_def)


subsection \<open>C7: debouncing\<close>

text \<open>
  C7: for a path that ends in \<open>.pdf\<close>, notifications at times \<open>ts\<close>, each less than 3000 ms
  after the one before, make the debounce callback of the path run exactly once, at
  \<open>last ts + 3000\<close>: 3 seconds after the last notification, not the first. After the
  burst exactly one debounce timer of the path is pending, and every notification
  removes the timer recorded for the path and registers a new one due 3000 ms later.
\<close>

theorem C7_debounce:
  assumes "suffix (js ''.pdf'') fullPath"
    and "ts \<noteq> []"
    and "successively (\<lambda>a b. a \<le> b \<and> b < a + 3000) ts"
    and "now s \<le> hd ts"
    and "wf_timers s"
    and "pending_for (DebounceFire fullPath) s = []"
    and "last ts + 3000 \<le> T"
  shows "fired_for (DebounceFire fullPath) (advance w T (notifications w fullPath ts s)) =
           fired_for (DebounceFire fullPath) s @ [(last ts + 3000, DebounceFire fullPath)] \<and>
         (\<exists>i. pending_for (DebounceFire fullPath) (notifications w fullPath ts s) =
                [\<lparr>tid = i, due = last ts + 3000, task = DebounceFire fullPath\<rparr>]) \<and>
         timers (handleNewFile fullPath s') =
           (case pendingFiles s' fullPath of
              None \<Rightarrow> timers s'
            | Some i \<Rightarrow> filter (\<lambda>t. tid t \<noteq> i) (timers s')) @
           [\<lparr>tid = nextId s', due = now s' + 3000, task = DebounceFire fullPath\<rparr>]"
proof -
  obtain t ts' where ts: "ts = t # ts'"
    using assms(2) by (cases ts) auto
  let ?s = "notifications w fullPath ts s"
  have burst: "wf_timers ?s \<and> now ?s = last ts \<and>
     fired_for (DebounceFire fullPath) ?s = fired_for (DebounceFire fullPath) s \<and>
     (\<exists>i. pending_for (DebounceFire fullPath) ?s =
            [\<lparr>tid = i, due = last ts + 3000, task = DebounceFire fullPath\<rparr>] \<and>
          pendingFiles ?s fullPath = Some i)"
    unfolding ts
    using assms(1) assms(3-6) unfolding ts
    by (intro notifications_burst) simp_all
  then obtain i where i: "pending_for (DebounceFire fullPath) ?s =
      [\<lparr>tid = i, due = last ts + 3000, task = DebounceFire fullPath\<rparr>]"
    by blast
  have "fired_for (DebounceFire fullPath) (advance w T ?s) =
      fired_for (DebounceFire fullPath) ?s @ [(last ts + 3000, DebounceFire fullPath)]"
    using advance_fires_once [of ?s fullPath _ T w] burst i assms(7) by simp
  then show ?thesis
    using burst i handleNewFile_timers(1) [OF assms(1), of s'] by simp
qed

theorem C7_debounce_witness:
  "suffix (js ''.pdf'') demo_pdf \<and>
   successively (\<lambda>a b. a \<le> b \<and> b < a + 3000) [0, 1000, 2500 :: nat] \<and>
   wf_timers init \<and> pending_for (DebounceFire demo_pdf) init = [] \<and>
   fired_for (DebounceFire demo_pdf)
     (advance demo_world 6000 (notifications demo_world demo_pdf [0, 1000, 2500] init)) =
     [(5500, DebounceFire demo_pdf)]"
proof -
  have h: "[0, 1000, 2500 :: nat] \<noteq> []"
    "successively (\<lambda>a b. a \<le> b \<and> b < a + 3000) [0, 1000, 2500 :: nat]"
    "now init \<le> hd [0, 1000, 2500 :: nat]"
    "pending_for (DebounceFire demo_pdf) init = []"
    "last [0, 1000, 2500 :: nat] + 3000 \<le> 6000"
    by (simp_all add: init_def pending_for_def)
  have f: "fired_for (DebounceFire demo_pdf) init = []"
    by (simp add: fired_for_def init_def)
  show ?thesis
    using C7_debounce [OF demo_pdf_suffix h(1,2,3) wf_init h(4,5), of demo_world]
      demo_pdf_suffix h(2,4) wf_init f
    by simp
qed


section \<open>Properties of runs in the event loop\<close>

lemma init_fields:
  "now init = 0" "recentlyProcessed init = {}" "timers init = []" "nextId init = 0"
  "trace init = []" "fired init = []" "cachedModels init = []" "pendingFiles init = Map.empty"
  by (simp_all add: init_def)

lemma analyzePaper_wf:
  assumes "wf_timers s"
  shows "wf_timers (analyzePaper w k a s)"
proof -
  obtain new where t: "timers (analyzePaper w k a s) = timers s @ new"
    and n: "map tid new = [nextId s ..< nextId (analyzePaper w k a s)]"
    and le: "nextId s \<le> nextId (analyzePaper w k a s)"
    using analyzePaper_timers [where w = w and k = k and a = a and s = s and w' = w] by blast
  have dn: "distinct (map tid new)"
    by (simp add: n)
  have bn: "\<forall>x\<in>set new. nextId s \<le> tid x \<and> tid x < nextId (analyzePaper w k a s)"
  proof
    fix x
    assume "x \<in> set new"
    then have "tid x \<in> set (map tid new)"
      by simp
    then show "nextId s \<le> tid x \<and> tid x < nextId (analyzePaper w k a s)"
      unfolding n by simp
  qed
  show ?thesis
    unfolding wf_timers_def t using assms dn bn le by (fastforce simp: wf_timers_def)
qed

lemma analyzePaper_no_watcher:
  assumes "no_watcher s"
  shows "no_watcher (analyzePaper w k a s)"
  using analyzePaper_timers [where w = w and k = k and a = a and s = s and w' = w] assms
  by (auto simp: no_watcher_def list_all_iff)

subsection \<open>The trace only grows\<close>

lemma runTask_trace_grows: "prefix (trace s) (trace (runTask w t s))"
proof (cases t)
  case (ExpireRecent k)
  then show ?thesis by (simp add: runTask_def)
next
  case (DebounceFire p)
  then show ?thesis
    using debounceFired_frame(4) [of w p s] by (auto simp: runTask_def)
next
  case (GraceDone k)
  then show ?thesis
    by (simp add: runTask_def graceDone_def analyzePaper_trace_grows)
next
  case (Resume a)
  then show ?thesis
    by (simp add: runTask_def proceed_frame resume_frame)
qed

lemma fire_trace_grows: "prefix (trace s) (trace (fire w tm s))"
  using runTask_trace_grows [of "s\<lparr>now := due tm,
      timers := filter (\<lambda>t. tid t \<noteq> tid tm) (timers s),
      fired := fired s @ [(due tm, task tm)]\<rparr>" w "task tm"]
  by (simp add: fire_def)

lemma advance_trace_grows: "prefix (trace s) (trace (advance w T s))"
proof (induction w T s rule: advance.induct)
  case (1 w T s)
  show ?case
  proof (cases "nextTimer T s")
    case None
    then show ?thesis
      by (simp add: advance_stop)
  next
    case (Some tm)
    then show ?thesis
      using "1.IH" [OF Some] fire_trace_grows [of s w tm]
      by (auto simp: advance_step intro: prefix_order.trans)
  qed
qed

subsection \<open>What takes a key out of \<open>recentlyProcessed\<close>\<close>

lemma runTask_recent:
  "recentlyProcessed (runTask w t s) \<subseteq> recentlyProcessed s \<or> starts_run t"
  "key \<in> recentlyProcessed s \<Longrightarrow> \<not> releases w key t \<Longrightarrow> key \<in> recentlyProcessed (runTask w t s)"
  "releases w key t \<Longrightarrow> key \<notin> recentlyProcessed (runTask w t s)"
proof -
  show "recentlyProcessed (runTask w t s) \<subseteq> recentlyProcessed s \<or> starts_run t"
    by (cases t) (auto simp: runTask_def proceed_frame resume_recent split: await.splits)
  show "key \<in> recentlyProcessed (runTask w t s)"
    if "key \<in> recentlyProcessed s" and "\<not> releases w key t"
  proof (cases t)
    case (ExpireRecent k)
    then show ?thesis
      using that by (auto simp: runTask_def releases_def)
  next
    case (DebounceFire p)
    then show ?thesis
      using that by (simp add: runTask_def debounceFired_frame)
  next
    case (GraceDone k)
    then show ?thesis
      using that analyzePaper_recent [of k s w True]
      by (cases "k \<in> recentlyProcessed s")
        (auto simp: runTask_def graceDone_def analyzePaper_noop)
  next
    case (Resume a)
    then show ?thesis
      using that
      by (auto simp: runTask_def proceed_frame resume_recent releases_def split: await.splits)
  qed
  show "key \<notin> recentlyProcessed (runTask w t s)" if "releases w key t"
    using that by (auto simp: releases_def runTask_def proceed_frame resume_recent)
qed

lemma fire_recent:
  "recentlyProcessed (fire w tm s) \<subseteq> recentlyProcessed s \<or> starts_run (task tm)"
  "key \<in> recentlyProcessed s \<Longrightarrow> \<not> releases w key (task tm) \<Longrightarrow>
     key \<in> recentlyProcessed (fire w tm s)"
  "releases w key (task tm) \<Longrightarrow> key \<notin> recentlyProcessed (fire w tm s)"
proof -
  let ?s = "s\<lparr>now := due tm, timers := filter (\<lambda>t. tid t \<noteq> tid tm) (timers s),
      fired := fired s @ [(due tm, task tm)]\<rparr>"
  show "recentlyProcessed (fire w tm s) \<subseteq> recentlyProcessed s \<or> starts_run (task tm)"
    using runTask_recent(1) [where w = w and t = "task tm" and s = ?s] by (simp add: fire_def)
  show "key \<in> recentlyProcessed (fire w tm s)"
    if "key \<in> recentlyProcessed s" and "\<not> releases w key (task tm)"
    using runTask_recent(2) [where w = w and t = "task tm" and s = ?s and key = key] that
    by (simp add: fire_def)
  show "key \<notin> recentlyProcessed (fire w tm s)" if "releases w key (task tm)"
    using runTask_recent(3) [where w = w and t = "task tm" and s = ?s and key = key] that
    by (simp add: fire_def)
qed

text \<open>
  A reserved key stays reserved while none of the callbacks that release it is due: the
  callbacks that are registered meanwhile release other keys.
\<close>

lemma advance_keeps_recent:
  assumes "key \<in> recentlyProcessed s"
    and "\<forall>t\<in>set (timers s). releases w key (task t) \<longrightarrow> T < due t"
  shows "key \<in> recentlyProcessed (advance w T s)"
  using assms
proof (induction w T s rule: advance.induct)
  case (1 w T s)
  show ?case
  proof (cases "nextTimer T s")
    case None
    then show ?thesis
      using "1.prems"(1) by (simp add: advance_stop)
  next
    case (Some tm)
    have tm: "tm \<in> set (timers s)" "due tm \<le> T"
      using nextTimer_Some [OF Some] by auto
    then have other: "\<not> releases w key (task tm)"
      using "1.prems"(2) by auto
    have kept: "key \<in> recentlyProcessed (fire w tm s)"
      using "1.prems"(1) other by (rule fire_recent(2))
    obtain new where t: "timers (fire w tm s) = filter (\<lambda>t. tid t \<noteq> tid tm) (timers s) @ new"
      and n: "\<forall>x\<in>set new. \<forall>k. releases w k (task x) \<longrightarrow> k \<notin> recentlyProcessed s"
      using fire_timers [where w = w and tm = tm and s = s and w' = w] by blast
    have "\<forall>t\<in>set (timers (fire w tm s)). releases w key (task t) \<longrightarrow> T < due t"
      unfolding t using "1.prems" n by auto
    then show ?thesis
      using "1.IH" [OF Some kept] Some by (simp add: advance_step)
  qed
qed

text \<open>While no callback of the file watcher is pending the event loop reserves no key.\<close>

lemma fire_no_watcher:
  assumes "no_watcher s" and "tm \<in> set (timers s)"
  shows "no_watcher (fire w tm s)"
    and "recentlyProcessed (fire w tm s) \<subseteq> recentlyProcessed s"
proof -
  have tm: "\<not> starts_run (task tm)"
    using assms by (auto simp: no_watcher_def list_all_iff)
  obtain new where t: "timers (fire w tm s) = filter (\<lambda>t. tid t \<noteq> tid tm) (timers s) @ new"
    and n: "\<not> starts_run (task tm) \<longrightarrow> (\<forall>x\<in>set new. \<not> starts_run (task x))"
    using fire_timers [where w = w and tm = tm and s = s and w' = w] by blast
  show "no_watcher (fire w tm s)"
    unfolding no_watcher_def t using assms(1) n tm by (auto simp: no_watcher_def list_all_iff)
  show "recentlyProcessed (fire w tm s) \<subseteq> recentlyProcessed s"
    using fire_recent(1) [of w tm s] tm by simp
qed

lemma advance_no_watcher:
  assumes "no_watcher s"
  shows "no_watcher (advance w T s) \<and> recentlyProcessed (advance w T s) \<subseteq> recentlyProcessed s"
  using assms
proof (induction w T s rule: advance.induct)
  case (1 w T s)
  show ?case
  proof (cases "nextTimer T s")
    case None
    then show ?thesis
      using "1.prems" by (simp add: advance_stop no_watcher_def)
  next
    case (Some tm)
    have tm: "tm \<in> set (timers s)"
      using nextTimer_Some [OF Some] by auto
    show ?thesis
      using "1.IH" [OF Some fire_no_watcher(1) [OF "1.prems" tm]]
        fire_no_watcher(2) [OF "1.prems" tm, of w] Some
      by (auto simp: advance_step)
  qed
qed

text \<open>
  Then a key is out of \<open>recentlyProcessed\<close> once a callback that releases it has been
  due.
\<close>

lemma advance_releases:
  assumes "wf_timers s" and "no_watcher s" and "tm \<in> set (timers s)" and "due tm \<le> T"
    and "releases w key (task tm)"
  shows "key \<notin> recentlyProcessed (advance w T s)"
  using assms
proof (induction w T s rule: advance.induct)
  case (1 w T s)
  from "1.prems" have "nextTimer T s \<noteq> None"
    by (auto simp: nextTimer_None not_less)
  then obtain u where u: "nextTimer T s = Some u"
    by auto
  have u_in: "u \<in> set (timers s)"
    using nextTimer_Some [OF u] by auto
  have nw: "no_watcher (fire w u s)"
    using "1.prems"(2) u_in by (rule fire_no_watcher(1))
  show ?case
  proof (cases "u = tm")
    case True
    have "key \<notin> recentlyProcessed (fire w tm s)"
      using "1.prems"(5) by (rule fire_recent(3))
    then show ?thesis
      using advance_no_watcher [OF nw, of w T] u True by (auto simp: advance_step)
  next
    case False
    have "tm \<in> set (timers (fire w u s))"
      using "1.prems" u_in False by (intro fire_keeps_other) auto
    then show ?thesis
      using "1.IH" [OF u fire_wf [OF "1.prems"(1)] nw] "1.prems" u by (simp add: advance_step)
  qed
qed

text \<open>A callback that is not due stays pending.\<close>

lemma advance_keeps_pending:
  assumes "wf_timers s" and "tm \<in> set (timers s)" and "T < due tm"
  shows "tm \<in> set (timers (advance w T s))"
  using assms
proof (induction w T s rule: advance.induct)
  case (1 w T s)
  show ?case
  proof (cases "nextTimer T s")
    case None
    then show ?thesis
      using "1.prems" by (simp add: advance_stop)
  next
    case (Some u)
    have u: "u \<in> set (timers s)" "due u \<le> T"
      using nextTimer_Some [OF Some] by auto
    then have "tm \<noteq> u"
      using "1.prems"(3) by auto
    then have "tm \<in> set (timers (fire w u s))"
      using "1.prems" u(1) by (intro fire_keeps_other) auto
    then show ?thesis
      using "1.IH" [OF Some fire_wf [OF "1.prems"(1)]] "1.prems"(3) Some
      by (simp add: advance_step)
  qed
qed

subsection \<open>A run that no other callback interrupts\<close>

lemma alone_step:
  assumes "alone T base r s" and "task r = Resume a"
  shows "advance w T s =
     advance w T (proceed w (resume w a
       (s\<lparr>now := due r, timers := base, fired := fired s @ [(due r, Resume a)]\<rparr>)))"
proof -
  have t: "timers s = base @ [r]" and d: "due r \<le> T"
    and b: "\<forall>t\<in>set base. T < due t \<and> tid t \<noteq> tid r"
    using assms(1) by (auto simp: alone_def list_all_iff)
  have "filter (\<lambda>t. due t \<le> T) base = []"
    using b by (auto simp: filter_empty_conv)
  then have n: "nextTimer T s = Some r"
    using d by (simp add: nextTimer_def t)
  have "filter (\<lambda>t. tid t \<noteq> tid r) base = base"
    using b by (simp add: filter_id_conv)
  then have "fire w r s = proceed w (resume w a
      (s\<lparr>now := due r, timers := base, fired := fired s @ [(due r, Resume a)]\<rparr>))"
    by (simp add: fire_def runTask_def t assms(2))
  then show ?thesis
    using advance_step [OF n, of w] by simp
qed

lemma alone_base:
  assumes "alone T base r s"
  shows "list_all (\<lambda>t. T < due t \<and> tid t < nextId s) base"
  using assms by (auto simp: alone_def list_all_iff)

lemma alone_stop:
  assumes "list_all (\<lambda>t. T < due t \<and> tid t < n) (timers s)"
  shows "advance w T s = s\<lparr>now := max (now s) T\<rparr>"
proof -
  have "nextTimer T s = None"
    using assms by (auto simp: nextTimer_None list_all_iff)
  then show ?thesis
    by (rule advance_stop)
qed

lemma alone_suspend:
  assumes "list_all (\<lambda>t. T < due t \<and> tid t < nextId s) base" and "timers s = base"
    and "now s + latency w a \<le> T" and "settles w a"
  shows "alone T base \<lparr>tid = nextId s, due = now s + latency w a, task = Resume a\<rparr>
           (suspend w a s)"
  using assms by (auto simp: alone_def suspend_eq list_all_iff)

text \<open>
  The stages of a run whose write-back fails, from the last one back to the first: what
  the run adds to the trace from the stage on, that it leaves \<open>recentlyProcessed\<close> alone,
  and that it leaves nothing pending.
\<close>

lemma alone_save:
  assumes al: "alone T base r s" "task r = Resume (AwaitSave itemKey analysis)"
    and wb: "save_analysis w itemKey analysis = Inl err" "err \<noteq> SpawnError"
  shows "trace (advance w T s) = trace s @ [ShowWarningMessage (WritebackFailed err)] \<and>
         recentlyProcessed (advance w T s) = recentlyProcessed s \<and>
         timers (advance w T s) = base"
proof -
  let ?s0 = "s\<lparr>now := due r, timers := base,
      fired := fired s @ [(due r, Resume (AwaitSave itemKey analysis))]\<rparr>"
  let ?x = "emit (ShowWarningMessage (WritebackFailed err)) ?s0"
  have "advance w T s = advance w T ?x"
    using alone_step [OF al, of w] wb by simp
  moreover have "advance w T ?x = ?x\<lparr>now := max (now ?x) T\<rparr>"
    using alone_base [OF al(1)] by (intro alone_stop [where n = "nextId s"]) simp
  ultimately show ?thesis
    by (simp add: trace_emit)
qed

lemma alone_stream:
  assumes al: "alone T base r s" "task r = Resume (AwaitStream itemKey m pdfText)"
    and gen: "sendRequest w m (readNote (selectContext pdfText))
         (usedText (selectContext pdfText)) = Inr (chunks, None)"
    and wb: "save_analysis w itemKey (concat chunks) = Inl err" "err \<noteq> SpawnError"
    and lat: "due r + latency w (AwaitSave itemKey (concat chunks)) \<le> T"
  shows "trace (advance w T s) =
           trace s @ [RunPython Save_analysis itemKey (Some (concat chunks)),
                      ShowWarningMessage (WritebackFailed err)] \<and>
         recentlyProcessed (advance w T s) = recentlyProcessed s \<and>
         timers (advance w T s) = base"
proof -
  let ?s0 = "s\<lparr>now := due r, timers := base,
      fired := fired s @ [(due r, Resume (AwaitStream itemKey m pdfText))]\<rparr>"
  let ?x = "emit (RunPython Save_analysis itemKey (Some (concat chunks))) ?s0"
  let ?a = "AwaitSave itemKey (concat chunks)"
  have st: "settles w ?a"
    using wb by (simp add: settles_def)
  have step: "advance w T s = advance w T (suspend w ?a ?x)"
    using alone_step [OF al, of w] gen by (simp add: Let_def)
  have "alone T base \<lparr>tid = nextId ?x, due = now ?x + latency w ?a, task = Resume ?a\<rparr>
      (suspend w ?a ?x)"
    using alone_base [OF al(1)] lat st by (intro alone_suspend) simp_all
  from alone_save [OF this _ wb] show ?thesis
    by (simp add: step suspend_frame trace_emit)
qed

lemma alone_send:
  assumes base: "list_all (\<lambda>t. T < due t \<and> tid t < nextId s) base" "timers s = base"
    and res: "resolveModel_from (unicodeLower w) available (cfg_model w) = Some m"
    and gen: "sendRequest w m (readNote (selectContext pdfText))
         (usedText (selectContext pdfText)) = Inr (chunks, None)"
    and wb: "save_analysis w itemKey (concat chunks) = Inl err" "err \<noteq> SpawnError"
    and lat: "now s + latency w (AwaitStream itemKey m pdfText) +
         latency w (AwaitSave itemKey (concat chunks)) \<le> T"
  shows "trace (advance w T (proceed w (sendToModel w itemKey pdfText available s))) =
           trace s @ [SendRequest m (readNote (selectContext pdfText))
                        (usedText (selectContext pdfText)),
                      RunPython Save_analysis itemKey (Some (concat chunks)),
                      ShowWarningMessage (WritebackFailed err)] \<and>
         recentlyProcessed (advance w T (proceed w (sendToModel w itemKey pdfText available s))) =
           recentlyProcessed s \<and>
         timers (advance w T (proceed w (sendToModel w itemKey pdfText available s))) = base"
proof -
  let ?x = "emit (SendRequest m (readNote (selectContext pdfText))
      (usedText (selectContext pdfText))) s"
  let ?a = "AwaitStream itemKey m pdfText"
  have p: "proceed w (sendToModel w itemKey pdfText available s) = suspend w ?a ?x"
    using res by (simp add: sendToModel_def Let_def)
  have "alone T base \<lparr>tid = nextId ?x, due = now ?x + latency w ?a, task = Resume ?a\<rparr>
      (suspend w ?a ?x)"
    using base lat by (intro alone_suspend) (simp_all add: settles_def)
  from alone_stream [OF this _ gen wb] lat show ?thesis
    by (simp add: p suspend_frame trace_emit)
qed

lemma alone_models:
  assumes al: "alone T base r s" "task r = Resume (AwaitModels itemKey pdfText)"
    and res: "resolveModel_from (unicodeLower w)
         (case selectChatModels w of Inl e \<Rightarrow> [] | Inr ms \<Rightarrow> ms) (cfg_model w) = Some m"
    and gen: "sendRequest w m (readNote (selectContext pdfText))
         (usedText (selectContext pdfText)) = Inr (chunks, None)"
    and wb: "save_analysis w itemKey (concat chunks) = Inl err" "err \<noteq> SpawnError"
    and lat: "due r + latency w (AwaitStream itemKey m pdfText) +
         latency w (AwaitSave itemKey (concat chunks)) \<le> T"
  shows "trace (advance w T s) =
           trace s @ [SendRequest m (readNote (selectContext pdfText))
                        (usedText (selectContext pdfText)),
                      RunPython Save_analysis itemKey (Some (concat chunks)),
                      ShowWarningMessage (WritebackFailed err)] \<and>
         recentlyProcessed (advance w T s) = recentlyProcessed s \<and>
         timers (advance w T s) = base"
proof -
  let ?ms = "case selectChatModels w of Inl e \<Rightarrow> [] | Inr ms \<Rightarrow> ms"
  let ?s0 = "s\<lparr>now := due r, timers := base,
      fired := fired s @ [(due r, Resume (AwaitModels itemKey pdfText))]\<rparr>"
  let ?x = "?s0\<lparr>cachedModels := ?ms\<rparr>"
  have step: "advance w T s = advance w T (proceed w (sendToModel w itemKey pdfText ?ms ?x))"
    using alone_step [OF al, of w] by (simp add: Let_def)
  have b: "list_all (\<lambda>t. T < due t \<and> tid t < nextId ?x) base" "timers ?x = base"
    using alone_base [OF al(1)] by simp_all
  have l: "now ?x + latency w (AwaitStream itemKey m pdfText) +
      latency w (AwaitSave itemKey (concat chunks)) \<le> T"
    using lat by simp
  from alone_send [OF b res gen wb l] show ?thesis
    by (simp add: step)
qed

lemma getAvailableModels_cached:
  "fst (getAvailableModels w s) =
     (if cachedModels s = [] then (case selectChatModels w of Inl e \<Rightarrow> [] | Inr ms \<Rightarrow> ms)
      else cachedModels s)"
  by (simp add: getAvailableModels_def Let_def)

lemma getAvailableModels_cong:
  "cachedModels s1 = cachedModels s2 \<Longrightarrow>
     fst (getAvailableModels w s1) = fst (getAvailableModels w s2)"
  by (simp add: getAvailableModels_def Let_def)

lemma alone_extract:
  assumes al: "alone T base r s" "task r = Resume (AwaitExtract itemKey)"
    and raw: "pdf_to_text w itemKey = Inr raw"
    and nonblank: "\<not> list_all isWhiteSpace (pdfTextOf raw)"
    and res: "resolveModel_from (unicodeLower w) (fst (getAvailableModels w s)) (cfg_model w) =
         Some m"
    and gen: "sendRequest w m (readNote (selectContext (pdfTextOf raw)))
         (usedText (selectContext (pdfTextOf raw))) = Inr (chunks, None)"
    and wb: "save_analysis w itemKey (concat chunks) = Inl err" "err \<noteq> SpawnError"
    and lat: "due r +
         (if cachedModels s = [] then latency w (AwaitModels itemKey (pdfTextOf raw)) else 0) +
         latency w (AwaitStream itemKey m (pdfTextOf raw)) +
         latency w (AwaitSave itemKey (concat chunks)) \<le> T"
  shows "trace (advance w T s) =
           trace s @ (if cachedModels s = [] then [SelectChatModels] else []) @
             [SendRequest m (readNote (selectContext (pdfTextOf raw)))
                (usedText (selectContext (pdfTextOf raw))),
              RunPython Save_analysis itemKey (Some (concat chunks)),
              ShowWarningMessage (WritebackFailed err)] \<and>
         recentlyProcessed (advance w T s) = recentlyProcessed s \<and>
         timers (advance w T s) = base"
proof (cases "cachedModels s = []")
  case True
  let ?s0 = "s\<lparr>now := due r, timers := base,
      fired := fired s @ [(due r, Resume (AwaitExtract itemKey))]\<rparr>"
  let ?x = "emit SelectChatModels ?s0"
  let ?a = "AwaitModels itemKey (pdfTextOf raw)"
  have ne: "trim (pdfTextOf raw) \<noteq> []"
    using nonblank by (simp add: trim_empty_iff)
  have step: "advance w T s = advance w T (suspend w ?a ?x)"
    using alone_step [OF al, of w] raw ne True by (simp add: Let_def)
  have a: "alone T base \<lparr>tid = nextId ?x, due = now ?x + latency w ?a, task = Resume ?a\<rparr>
      (suspend w ?a ?x)"
    using alone_base [OF al(1)] lat True
    by (intro alone_suspend) (simp_all add: settles_def)
  have res': "resolveModel_from (unicodeLower w)
      (case selectChatModels w of Inl e \<Rightarrow> [] | Inr ms \<Rightarrow> ms) (cfg_model w) = Some m"
    using res True by (simp add: getAvailableModels_cached)
  have l: "due \<lparr>tid = nextId ?x, due = now ?x + latency w ?a, task = Resume ?a\<rparr> +
      latency w (AwaitStream itemKey m (pdfTextOf raw)) +
      latency w (AwaitSave itemKey (concat chunks)) \<le> T"
    using lat True by simp
  from alone_models [OF a _ res' gen wb l] show ?thesis
    using True by (simp add: step suspend_frame trace_emit)
next
  case False
  let ?s0 = "s\<lparr>now := due r, timers := base,
      fired := fired s @ [(due r, Resume (AwaitExtract itemKey))]\<rparr>"
  have ne: "trim (pdfTextOf raw) \<noteq> []"
    using nonblank by (simp add: trim_empty_iff)
  have step: "advance w T s =
      advance w T (proceed w (sendToModel w itemKey (pdfTextOf raw) (cachedModels s) ?s0))"
    using alone_step [OF al, of w] raw ne False by (simp add: Let_def)
  have b: "list_all (\<lambda>t. T < due t \<and> tid t < nextId ?s0) base" "timers ?s0 = base"
    using alone_base [OF al(1)] by simp_all
  have res': "resolveModel_from (unicodeLower w) (cachedModels s) (cfg_model w) = Some m"
    using res False by (simp add: getAvailableModels_cached)
  have l: "now ?s0 + latency w (AwaitStream itemKey m (pdfTextOf raw)) +
      latency w (AwaitSave itemKey (concat chunks)) \<le> T"
    using lat False by simp
  from alone_send [OF b res' gen wb l] show ?thesis
    using False by (simp add: step)
qed

lemma alone_prompt:
  assumes al: "alone T base r s" "task r = Resume (AwaitPrompt itemKey)"
    and go: "startPrompt w itemKey \<noteq> SkipThisTime"
    and raw: "pdf_to_text w itemKey = Inr raw"
    and nonblank: "\<not> list_all isWhiteSpace (pdfTextOf raw)"
    and res: "resolveModel_from (unicodeLower w) (fst (getAvailableModels w s)) (cfg_model w) =
         Some m"
    and gen: "sendRequest w m (readNote (selectContext (pdfTextOf raw)))
         (usedText (selectContext (pdfTextOf raw))) = Inr (chunks, None)"
    and wb: "save_analysis w itemKey (concat chunks) = Inl err" "err \<noteq> SpawnError"
    and lat: "due r + latency w (AwaitExtract itemKey) +
         (if cachedModels s = [] then latency w (AwaitModels itemKey (pdfTextOf raw)) else 0) +
         latency w (AwaitStream itemKey m (pdfTextOf raw)) +
         latency w (AwaitSave itemKey (concat chunks)) \<le> T"
  shows "trace (advance w T s) =
           trace s @ RunPython Pdf_to_text itemKey None #
             (if cachedModels s = [] then [SelectChatModels] else []) @
             [SendRequest m (readNote (selectContext (pdfTextOf raw)))
                (usedText (selectContext (pdfTextOf raw))),
              RunPython Save_analysis itemKey (Some (concat chunks)),
              ShowWarningMessage (WritebackFailed err)] \<and>
         recentlyProcessed (advance w T s) = recentlyProcessed s \<and>
         timers (advance w T s) = base"
proof -
  let ?s0 = "s\<lparr>now := due r, timers := base,
      fired := fired s @ [(due r, Resume (AwaitPrompt itemKey))]\<rparr>"
  let ?x = "emit (RunPython Pdf_to_text itemKey None) ?s0"
  let ?a = "AwaitExtract itemKey"
  let ?y = "suspend w ?a ?x"
  have step: "advance w T s = advance w T ?y"
    using alone_step [OF al, of w] go by (simp add: startPipeline_def)
  have a: "alone T base \<lparr>tid = nextId ?x, due = now ?x + latency w ?a, task = Resume ?a\<rparr> ?y"
    using alone_base [OF al(1)] lat raw
    by (intro alone_suspend) (simp_all add: settles_def)
  have res': "resolveModel_from (unicodeLower w) (fst (getAvailableModels w ?y)) (cfg_model w) =
      Some m"
    using res getAvailableModels_cong [of ?y s w] by (simp add: suspend_frame)
  have l: "due \<lparr>tid = nextId ?x, due = now ?x + latency w ?a, task = Resume ?a\<rparr> +
      (if cachedModels ?y = [] then latency w (AwaitModels itemKey (pdfTextOf raw)) else 0) +
      latency w (AwaitStream itemKey m (pdfTextOf raw)) +
      latency w (AwaitSave itemKey (concat chunks)) \<le> T"
    using lat by (simp add: suspend_frame)
  from alone_extract [OF a _ raw nonblank res' gen wb l] show ?thesis
    by (simp add: step suspend_frame trace_emit)
qed

text \<open>
  A whole run whose write-back fails, from the call of \<open>analyzePaper\<close> on, when no other
  callback is due before the run has ended and the run ends before its expiry timer is
  due.
\<close>

lemma run_writeback_failed:
  assumes fresh: "itemKey \<notin> recentlyProcessed s"
    and wf: "wf_timers s"
    and others: "list_all (\<lambda>t. T < due t) (timers s)"
    and go: "\<not> (autoTriggered \<and> startPrompt w itemKey = SkipThisTime)"
    and raw: "pdf_to_text w itemKey = Inr raw"
    and nonblank: "\<not> list_all isWhiteSpace (pdfTextOf raw)"
    and res: "resolveModel_from (unicodeLower w) (fst (getAvailableModels w s)) (cfg_model w) =
         Some m"
    and gen: "sendRequest w m (readNote (selectContext (pdfTextOf raw)))
         (usedText (selectContext (pdfTextOf raw))) = Inr (chunks, None)"
    and wb: "save_analysis w itemKey (concat chunks) = Inl err" "err \<noteq> SpawnError"
    and lat: "now s + (if autoTriggered then latency w (AwaitPrompt itemKey) else 0) +
         latency w (AwaitExtract itemKey) +
         (if cachedModels s = [] then latency w (AwaitModels itemKey (pdfTextOf raw)) else 0) +
         latency w (AwaitStream itemKey m (pdfTextOf raw)) +
         latency w (AwaitSave itemKey (concat chunks)) \<le> T"
    and short: "T < now s + 120000"
  shows "effects_since s (advance w T (analyzePaper w itemKey autoTriggered s)) =
           (if autoTriggered then [ShowInformationMessage (Detected itemKey)] else []) @
           RunPython Pdf_to_text itemKey None #
           (if cachedModels s = [] then [SelectChatModels] else []) @
           [SendRequest m (readNote (selectContext (pdfTextOf raw)))
              (usedText (selectContext (pdfTextOf raw))),
            RunPython Save_analysis itemKey (Some (concat chunks)),
            ShowWarningMessage (WritebackFailed err)]"
    and "recentlyProcessed (advance w T (analyzePaper w itemKey autoTriggered s)) =
           insert itemKey (recentlyProcessed s)"
    and "timers (advance w T (analyzePaper w itemKey autoTriggered s)) =
           timers s @ [\<lparr>tid = nextId s, due = now s + 120000, task = ExpireRecent itemKey\<rparr>]"
proof -
  let ?expiry = "\<lparr>tid = nextId s, due = now s + 120000, task = ExpireRecent itemKey\<rparr>"
  let ?base = "timers s @ [?expiry]"
  let ?S = "analyzePaper w itemKey autoTriggered s"
  have ids: "\<forall>t\<in>set (timers s). tid t < nextId s \<and> T < due t"
    using wf others by (auto simp: wf_timers_def list_all_iff)
  have "effects_since s (advance w T ?S) =
           (if autoTriggered then [ShowInformationMessage (Detected itemKey)] else []) @
           RunPython Pdf_to_text itemKey None #
           (if cachedModels s = [] then [SelectChatModels] else []) @
           [SendRequest m (readNote (selectContext (pdfTextOf raw)))
              (usedText (selectContext (pdfTextOf raw))),
            RunPython Save_analysis itemKey (Some (concat chunks)),
            ShowWarningMessage (WritebackFailed err)] \<and>
        recentlyProcessed (advance w T ?S) = insert itemKey (recentlyProcessed s) \<and>
        timers (advance w T ?S) = ?base"
  proof (cases autoTriggered)
    case True
    let ?r = "\<lparr>tid = Suc (nextId s), due = now s + latency w (AwaitPrompt itemKey),
        task = Resume (AwaitPrompt itemKey)\<rparr>"
    have S: "?S = s\<lparr>recentlyProcessed := insert itemKey (recentlyProcessed s),
        timers := ?base @ [?r], nextId := Suc (Suc (nextId s)),
        trace := trace s @ [ShowInformationMessage (Detected itemKey)]\<rparr>"
      using True analyzePaper_auto [OF fresh, of w] by simp
    have a: "alone T ?base ?r ?S"
      unfolding S using ids lat short True by (auto simp: alone_def list_all_iff)
    have res': "resolveModel_from (unicodeLower w) (fst (getAvailableModels w ?S)) (cfg_model w) =
        Some m"
      using res getAvailableModels_cong [of ?S s w] by (simp add: analyzePaper_frame)
    have l: "due ?r + latency w (AwaitExtract itemKey) +
        (if cachedModels ?S = [] then latency w (AwaitModels itemKey (pdfTextOf raw)) else 0) +
        latency w (AwaitStream itemKey m (pdfTextOf raw)) +
        latency w (AwaitSave itemKey (concat chunks)) \<le> T"
      using lat True by (simp add: analyzePaper_frame)
    have g: "startPrompt w itemKey \<noteq> SkipThisTime"
      using go True by simp
    from alone_prompt [OF a _ g raw nonblank res' gen wb l] show ?thesis
      using True
      by (simp add: effects_since_def analyzePaper_frame analyzePaper_recent [OF fresh]
          analyzePaper_trace [OF fresh])
  next
    case False
    let ?r = "\<lparr>tid = Suc (nextId s), due = now s + latency w (AwaitExtract itemKey),
        task = Resume (AwaitExtract itemKey)\<rparr>"
    have st: "settles w (AwaitExtract itemKey)"
      using raw by (simp add: settles_def)
    have S: "?S = s\<lparr>recentlyProcessed := insert itemKey (recentlyProcessed s),
        timers := ?base @ [?r], nextId := Suc (Suc (nextId s)),
        trace := trace s @ [RunPython Pdf_to_text itemKey None]\<rparr>"
      using False st analyzePaper_manual [OF fresh, of w] by simp
    have a: "alone T ?base ?r ?S"
      unfolding S using ids lat short False by (auto simp: alone_def list_all_iff)
    have res': "resolveModel_from (unicodeLower w) (fst (getAvailableModels w ?S)) (cfg_model w) =
        Some m"
      using res getAvailableModels_cong [of ?S s w] by (simp add: analyzePaper_frame)
    have l: "due ?r +
        (if cachedModels ?S = [] then latency w (AwaitModels itemKey (pdfTextOf raw)) else 0) +
        latency w (AwaitStream itemKey m (pdfTextOf raw)) +
        latency w (AwaitSave itemKey (concat chunks)) \<le> T"
      using lat False by (simp add: analyzePaper_frame)
    from alone_extract [OF a _ raw nonblank res' gen wb l] show ?thesis
      using False
      by (simp add: effects_since_def analyzePaper_frame analyzePaper_recent [OF fresh]
          analyzePaper_trace [OF fresh])
  qed
  then show "effects_since s (advance w T ?S) =
           (if autoTriggered then [ShowInformationMessage (Detected itemKey)] else []) @
           RunPython Pdf_to_text itemKey None #
           (if cachedModels s = [] then [SelectChatModels] else []) @
           [SendRequest m (readNote (selectContext (pdfTextOf raw)))
              (usedText (selectContext (pdfTextOf raw))),
            RunPython Save_analysis itemKey (Some (concat chunks)),
            ShowWarningMessage (WritebackFailed err)]"
    and "recentlyProcessed (advance w T ?S) = insert itemKey (recentlyProcessed s)"
    and "timers (advance w T ?S) = ?base"
    by simp_all
qed

section \<open>Concrete worlds\<close>

lemma demo_world_fields:
  "cfg_storage demo_world = demo_storage"
  "cfg_model demo_world = js ''claude-sonnet-4-6''"
  "unicodeLower demo_world = (\<lambda>s. s)"
  "existsSync demo_world t p = (t < 5000)"
  "startPrompt demo_world k = ViewProgress"
  "pdf_to_text demo_world k = Inr demo_raw"
  "selectChatModels demo_world = Inr [demo_sonnet, demo_gpt]"
  "sendRequest demo_world m n txt = Inr ([js ''An'', js ''alysis''], None)"
  "save_analysis demo_world k a = Inl PythonExit"
  "donePrompt demo_world k = NoAction"
  "latency demo_world aw = 0"
  by (simp_all add: demo_world_def)

lemma timed_world_fields:
  "cfg_model timed_world = js ''claude-sonnet-4-6''"
  "unicodeLower timed_world = (\<lambda>s. s)"
  "startPrompt timed_world k = ViewProgress"
  "pdf_to_text timed_world k = Inr demo_raw"
  "selectChatModels timed_world = Inr [demo_sonnet, demo_gpt]"
  "sendRequest timed_world m n txt = Inr ([js ''An'', js ''alysis''], None)"
  "save_analysis timed_world k a = Inl PythonExit"
  "latency timed_world = demo_latency"
  by (simp_all add: timed_world_def demo_world_def)

lemma skip_world_fields:
  "startPrompt skip_world k = SkipThisTime"
  "pdf_to_text skip_world k = Inr demo_raw"
  "latency skip_world = demo_latency"
  by (simp_all add: skip_world_def timed_world_def demo_world_def)

lemma no_watcher_init: "no_watcher init"
  by (simp add: no_watcher_def init_def)

text \<open>
  An automatic run at time 0 that the operator skips after 4 seconds, a manual run for
  the same key at 60000, and the expiry timer of the first run at 120000.
\<close>

lemma demo_skipped:
  "analyzePaper skip_world demo_key True init =
     init\<lparr>recentlyProcessed := {demo_key},
          timers := [\<lparr>tid = 0, due = 120000, task = ExpireRecent demo_key\<rparr>,
                     \<lparr>tid = Suc 0, due = 4000, task = Resume (AwaitPrompt demo_key)\<rparr>],
          nextId := Suc (Suc 0),
          trace := [ShowInformationMessage (Detected demo_key)]\<rparr>"
  using analyzePaper_auto [of demo_key init skip_world]
  by (simp add: init_fields skip_world_fields)

lemma demo_skipped_then_manual:
  "demo_key \<notin> recentlyProcessed (advance skip_world 60000 (analyzePaper skip_world demo_key True init))"
  "now (advance skip_world 60000 (analyzePaper skip_world demo_key True init)) = 60000"
  "demo_key \<in> recentlyProcessed (analyzePaper skip_world demo_key False
     (advance skip_world 60000 (analyzePaper skip_world demo_key True init)))"
  "demo_key \<notin> recentlyProcessed (advance skip_world 120000
     (analyzePaper skip_world demo_key False
       (advance skip_world 60000 (analyzePaper skip_world demo_key True init))))"
proof -
  let ?S1 = "analyzePaper skip_world demo_key True init"
  let ?S1' = "advance skip_world 60000 ?S1"
  let ?S2 = "analyzePaper skip_world demo_key False ?S1'"
  let ?expiry = "\<lparr>tid = 0, due = 120000, task = ExpireRecent demo_key\<rparr>"
  let ?prompt = "\<lparr>tid = Suc 0, due = 4000, task = Resume (AwaitPrompt demo_key)\<rparr>"
  have wf1: "wf_timers ?S1" and nw1: "no_watcher ?S1"
    by (simp_all add: analyzePaper_wf wf_init analyzePaper_no_watcher no_watcher_init)
  have in1: "?expiry \<in> set (timers ?S1)" "?prompt \<in> set (timers ?S1)"
    by (simp_all add: demo_skipped)
  have rel: "releases skip_world demo_key (task ?prompt)" "releases skip_world demo_key (task ?expiry)"
    by (simp_all add: releases_def skip_world_fields)
  show out1: "demo_key \<notin> recentlyProcessed ?S1'"
    using wf1 nw1 in1(2) _ rel(1) by (rule advance_releases) simp
  show "now ?S1' = 60000"
    by (rule advance_now) (simp add: demo_skipped init_fields)
  have wf1': "wf_timers ?S1'" and nw1': "no_watcher ?S1'"
    using wf1 nw1 by (simp_all add: advance_wf advance_no_watcher)
  have in1': "?expiry \<in> set (timers ?S1')"
    using wf1 in1(1) by (rule advance_keeps_pending) simp
  show "demo_key \<in> recentlyProcessed ?S2"
    using analyzePaper_recent [OF out1, of skip_world False] by simp
  have wf2: "wf_timers ?S2" and nw2: "no_watcher ?S2"
    using wf1' nw1' by (simp_all add: analyzePaper_wf analyzePaper_no_watcher)
  have in2: "?expiry \<in> set (timers ?S2)"
    using analyzePaper_timers [where w = skip_world and k = demo_key and a = False
        and s = ?S1' and w' = skip_world] in1'
    by auto
  show "demo_key \<notin> recentlyProcessed (advance skip_world 120000 ?S2)"
    using wf2 nw2 in2 _ rel(2) by (rule advance_releases) simp
qed

subsection \<open>C4: the reservation of a key\<close>

text \<open>
  C4, as the specification states it, fails: the window is not fixed. An automatic run
  for a key starts at time 0 and the operator skips it: the key is taken out of
  \<open>recentlyProcessed\<close>, but the expiry timer of the run stays pending. A manual run for
  the same key starts at 60000 and inserts the key; at 120000 the timer of the first run
  removes it, 60 seconds after it was inserted.
\<close>

theorem C4_expires_after_one_minute:
  "demo_key \<notin> recentlyProcessed
     (advance skip_world 60000 (analyzePaper skip_world demo_key True init)) \<and>
   now (advance skip_world 60000 (analyzePaper skip_world demo_key True init)) = 60000 \<and>
   demo_key \<in> recentlyProcessed
     (analyzePaper skip_world demo_key False
       (advance skip_world 60000 (analyzePaper skip_world demo_key True init))) \<and>
   demo_key \<notin> recentlyProcessed
     (advance skip_world 120000
       (analyzePaper skip_world demo_key False
         (advance skip_world 60000 (analyzePaper skip_world demo_key True init))))"
  using demo_skipped_then_manual by (intro conjI)

text \<open>
  C4, amended: for a key in \<open>recentlyProcessed\<close> a trigger of \<open>analyzePaper\<close> leaves the
  state unchanged and calls no collaborator. For a key not in the set the call inserts
  the key and registers the expiry timer, due 120000 ms later, whose callback removes the
  key; when the operator skips an automatic run the key is removed at once and nothing
  else changes, so that timer stays pending. The key stays in the set at every time
  before 120000 ms have passed when the run is not skipped and no callback that removes
  the key was pending at the start. The expiry callback runs exactly 120000 ms after the
  start, and when no callback of the file watcher is pending, the key is out of the set
  from then on.
\<close>

theorem C4_recently_processed:
  "(itemKey \<in> recentlyProcessed s \<longrightarrow>
      analyzePaper w itemKey autoTriggered s = s \<and>
      effects_since s (analyzePaper w itemKey autoTriggered s) = []) \<and>
   (itemKey \<notin> recentlyProcessed s \<longrightarrow>
      recentlyProcessed (analyzePaper w itemKey autoTriggered s) =
        insert itemKey (recentlyProcessed s) \<and>
      \<lparr>tid = nextId s, due = now s + 120000, task = ExpireRecent itemKey\<rparr>
        \<in> set (timers (analyzePaper w itemKey autoTriggered s))) \<and>
   itemKey \<notin> recentlyProcessed (runTask w (ExpireRecent itemKey) s) \<and>
   (startPrompt w itemKey = SkipThisTime \<longrightarrow>
      runTask w (Resume (AwaitPrompt itemKey)) s =
        s\<lparr>recentlyProcessed := recentlyProcessed s - {itemKey}\<rparr>) \<and>
   (itemKey \<notin> recentlyProcessed s \<and>
    \<not> (autoTriggered \<and> startPrompt w itemKey = SkipThisTime) \<and>
    (\<forall>t\<in>set (timers s). \<not> releases w itemKey (task t)) \<and> T < now s + 120000 \<longrightarrow>
      itemKey \<in> recentlyProcessed (advance w T (analyzePaper w itemKey autoTriggered s))) \<and>
   (itemKey \<notin> recentlyProcessed s \<and> wf_timers s \<and> now s + 120000 \<le> T \<longrightarrow>
      (now s + 120000, ExpireRecent itemKey) \<in>
        set (fired (advance w T (analyzePaper w itemKey autoTriggered s)))) \<and>
   (itemKey \<notin> recentlyProcessed s \<and> wf_timers s \<and> no_watcher s \<and> now s + 120000 \<le> T \<longrightarrow>
      itemKey \<notin> recentlyProcessed (advance w T (analyzePaper w itemKey autoTriggered s)))"
proof (intro conjI impI)
  assume "itemKey \<in> recentlyProcessed s"
  then show "analyzePaper w itemKey autoTriggered s = s"
    and "effects_since s (analyzePaper w itemKey autoTriggered s) = []"
    by (simp_all add: analyzePaper_noop effects_since_self)
next
  assume "itemKey \<notin> recentlyProcessed s"
  then show "recentlyProcessed (analyzePaper w itemKey autoTriggered s) =
        insert itemKey (recentlyProcessed s)"
    and "\<lparr>tid = nextId s, due = now s + 120000, task = ExpireRecent itemKey\<rparr>
        \<in> set (timers (analyzePaper w itemKey autoTriggered s))"
    by (simp_all add: analyzePaper_recent analyzePaper_expiry)
next
  show "itemKey \<notin> recentlyProcessed (runTask w (ExpireRecent itemKey) s)"
    by (simp add: runTask_def)
next
  assume "startPrompt w itemKey = SkipThisTime"
  then show "runTask w (Resume (AwaitPrompt itemKey)) s =
        s\<lparr>recentlyProcessed := recentlyProcessed s - {itemKey}\<rparr>"
    by (simp add: runTask_def)
next
  let ?s = "analyzePaper w itemKey autoTriggered s"
  assume h: "itemKey \<notin> recentlyProcessed s \<and>
    \<not> (autoTriggered \<and> startPrompt w itemKey = SkipThisTime) \<and>
    (\<forall>t\<in>set (timers s). \<not> releases w itemKey (task t)) \<and> T < now s + 120000"
  then have fresh: "itemKey \<notin> recentlyProcessed s"
    by simp
  have reserved: "itemKey \<in> recentlyProcessed ?s"
    by (simp add: analyzePaper_recent [OF fresh])
  have "\<forall>t\<in>set (timers ?s). releases w itemKey (task t) \<longrightarrow> T < due t"
  proof (cases autoTriggered)
    case True
    then show ?thesis
      using h by (auto simp: analyzePaper_auto [OF fresh] releases_def)
  next
    case False
    then show ?thesis
      using h by (auto simp: analyzePaper_manual [OF fresh] releases_def)
  qed
  with reserved show "itemKey \<in> recentlyProcessed (advance w T ?s)"
    by (rule advance_keeps_recent)
next
  let ?s = "analyzePaper w itemKey autoTriggered s"
  let ?tm = "\<lparr>tid = nextId s, due = now s + 120000, task = ExpireRecent itemKey\<rparr>"
  assume h: "itemKey \<notin> recentlyProcessed s \<and> wf_timers s \<and> now s + 120000 \<le> T"
  then have "wf_timers ?s" and "?tm \<in> set (timers ?s)" and "due ?tm \<le> T"
    by (simp_all add: analyzePaper_wf analyzePaper_expiry)
  then show "(now s + 120000, ExpireRecent itemKey) \<in> set (fired (advance w T ?s))"
    using advance_runs_due [of ?s ?tm T w] by simp
next
  let ?s = "analyzePaper w itemKey autoTriggered s"
  let ?tm = "\<lparr>tid = nextId s, due = now s + 120000, task = ExpireRecent itemKey\<rparr>"
  assume h: "itemKey \<notin> recentlyProcessed s \<and> wf_timers s \<and> no_watcher s \<and>
    now s + 120000 \<le> T"
  then have "wf_timers ?s" and "no_watcher ?s" and "?tm \<in> set (timers ?s)"
    and "due ?tm \<le> T" and "releases w itemKey (task ?tm)"
    by (simp_all add: analyzePaper_wf analyzePaper_no_watcher analyzePaper_expiry releases_def)
  then show "itemKey \<notin> recentlyProcessed (advance w T ?s)"
    by (rule advance_releases)
qed

theorem C4_recently_processed_witness:
  "demo_key \<notin> recentlyProcessed init \<and> wf_timers init \<and> no_watcher init \<and>
   timers init = [] \<and>
   demo_key \<in> recentlyProcessed (analyzePaper timed_world demo_key False init) \<and>
   \<lparr>tid = 0, due = 120000, task = ExpireRecent demo_key\<rparr>
     \<in> set (timers (analyzePaper timed_world demo_key False init)) \<and>
   analyzePaper timed_world demo_key True (analyzePaper timed_world demo_key False init) =
     analyzePaper timed_world demo_key False init \<and>
   demo_key \<in> recentlyProcessed
     (advance timed_world 119999 (analyzePaper timed_world demo_key False init)) \<and>
   (120000, ExpireRecent demo_key) \<in>
     set (fired (advance timed_world 120000 (analyzePaper timed_world demo_key False init))) \<and>
   demo_key \<notin> recentlyProcessed
     (advance timed_world 120000 (analyzePaper timed_world demo_key False init)) \<and>
   startPrompt skip_world demo_key = SkipThisTime \<and>
   recentlyProcessed (runTask skip_world (Resume (AwaitPrompt demo_key))
     (analyzePaper skip_world demo_key True init)) = {}"
proof -
  let ?s = "analyzePaper timed_world demo_key False init"
  note c4 = C4_recently_processed [where itemKey = demo_key and w = timed_world
      and autoTriggered = False and s = init]
  have fresh: "demo_key \<notin> recentlyProcessed init"
    by (simp add: init_fields)
  have start: "recentlyProcessed ?s = {demo_key}"
    "\<lparr>tid = 0, due = 120000, task = ExpireRecent demo_key\<rparr> \<in> set (timers ?s)"
    using c4 [THEN conjunct2, THEN conjunct1] fresh by (simp_all add: init_fields)
  then have reserved: "demo_key \<in> recentlyProcessed ?s"
    by simp
  have noop: "analyzePaper timed_world demo_key True ?s = ?s"
    using C4_recently_processed [where itemKey = demo_key and w = timed_world
        and autoTriggered = True and s = ?s, THEN conjunct1] reserved
    by simp
  have window: "demo_key \<in> recentlyProcessed (advance timed_world 119999 ?s)"
    using c4 [where T = 119999, THEN conjunct2, THEN conjunct2, THEN conjunct2,
        THEN conjunct2, THEN conjunct1] fresh
    by (simp add: init_fields)
  have expiry: "(120000, ExpireRecent demo_key) \<in> set (fired (advance timed_world 120000 ?s))"
    using c4 [where T = 120000, THEN conjunct2, THEN conjunct2, THEN conjunct2,
        THEN conjunct2, THEN conjunct2, THEN conjunct1] fresh wf_init
    by (simp add: init_fields)
  have gone: "demo_key \<notin> recentlyProcessed (advance timed_world 120000 ?s)"
    using c4 [where T = 120000, THEN conjunct2, THEN conjunct2, THEN conjunct2,
        THEN conjunct2, THEN conjunct2, THEN conjunct2] fresh wf_init no_watcher_init
    by (simp add: init_fields)
  have skip: "startPrompt skip_world demo_key = SkipThisTime"
    by (simp add: skip_world_fields)
  have skipped: "recentlyProcessed (runTask skip_world (Resume (AwaitPrompt demo_key))
      (analyzePaper skip_world demo_key True init)) = {}"
    using C4_recently_processed [where itemKey = demo_key and w = skip_world
        and s = "analyzePaper skip_world demo_key True init", THEN conjunct2, THEN conjunct2,
        THEN conjunct2, THEN conjunct1] skip
    by (simp add: demo_skipped)
  show ?thesis
    using fresh wf_init no_watcher_init init_fields(3) reserved start(2) noop window expiry
      gone skip skipped
    by (intro conjI)
qed

section \<open>Properties of the debounce callback\<close>

lemma fire_debounce_missing:
  assumes "task tm = DebounceFire p" and "\<not> existsSync w (due tm) p"
  shows "fire w tm s =
     s\<lparr>now := due tm,
       timers := filter (\<lambda>t. tid t \<noteq> tid tm) (timers s),
       fired := fired s @ [(due tm, DebounceFire p)],
       pendingFiles := (pendingFiles s)(p := None)\<rparr>"
  using assms by (simp add: fire_def runTask_def debounceFired_def Let_def)

lemma fire_debounce_present:
  assumes "task tm = DebounceFire p" and "existsSync w (due tm) p"
    and "extractKeyFromPath (cfg_storage w) p = Some key"
  shows "fire w tm s =
     s\<lparr>now := due tm,
       timers := filter (\<lambda>t. tid t \<noteq> tid tm) (timers s) @
         [\<lparr>tid = nextId s, due = due tm + 5000, task = GraceDone key\<rparr>],
       fired := fired s @ [(due tm, DebounceFire p)],
       pendingFiles := (pendingFiles s)(p := None),
       nextId := Suc (nextId s)\<rparr>"
  using assms by (simp add: fire_def runTask_def debounceFired_def Let_def setTimeout_def)

lemma fire_grace:
  assumes "task tm = GraceDone key"
  shows "fire w tm s =
     analyzePaper w key True
       (s\<lparr>now := due tm,
          timers := filter (\<lambda>t. tid t \<noteq> tid tm) (timers s),
          fired := fired s @ [(due tm, GraceDone key)]\<rparr>)"
  using assms by (simp add: fire_def runTask_def graceDone_def)

text \<open>A concrete run: one notification at time 0, the event loop run to time 8000.\<close>

lemma demo_extract: "extractKeyFromPath demo_storage demo_pdf = Some demo_key"
proof -
  have "js ''/paper.pdf'' = [] \<or> hd (js ''/paper.pdf'') = slash"
    by (simp add: js_def slash_def)
  from extract_under_root [OF demo_pdf_shape isItemKey_abcd1234 this]
  show ?thesis
    by (simp only: toUpperCase_abcd1234)
qed

lemma demo_notified:
  "handleNewFile demo_pdf init =
     \<lparr>now = 0, recentlyProcessed = {}, pendingFiles = [demo_pdf \<mapsto> 0], cachedModels = [],
      timers = [\<lparr>tid = 0, due = 3000, task = DebounceFire demo_pdf\<rparr>], nextId = Suc 0,
      trace = [], fired = []\<rparr>"
  using demo_pdf_suffix
  by (simp add: handleNewFile_def Let_def setTimeout_def init_def)

lemma demo_after_debounce:
  "advance demo_world 8000 (handleNewFile demo_pdf init) =
   advance demo_world 8000
     \<lparr>now = 3000, recentlyProcessed = {}, pendingFiles = Map.empty, cachedModels = [],
      timers = [\<lparr>tid = Suc 0, due = 8000, task = GraceDone demo_key\<rparr>],
      nextId = Suc (Suc 0), trace = [], fired = [(3000, DebounceFire demo_pdf)]\<rparr>"
proof -
  let ?tm = "\<lparr>tid = 0, due = 3000, task = DebounceFire demo_pdf\<rparr>"
  have n: "nextTimer 8000 (handleNewFile demo_pdf init) = Some ?tm"
    by (simp add: demo_notified nextTimer_def)
  have "fire demo_world ?tm (handleNewFile demo_pdf init) =
     \<lparr>now = 3000, recentlyProcessed = {}, pendingFiles = Map.empty, cachedModels = [],
      timers = [\<lparr>tid = Suc 0, due = 8000, task = GraceDone demo_key\<rparr>],
      nextId = Suc (Suc 0), trace = [], fired = [(3000, DebounceFire demo_pdf)]\<rparr>"
    unfolding demo_notified
    using demo_extract
    by (subst fire_debounce_present [where p = demo_pdf and key = demo_key])
      (simp_all add: demo_world_fields)
  then show ?thesis
    using advance_step [OF n, of demo_world] by simp
qed

lemma demo_pipeline_started:
  "RunPython Pdf_to_text demo_key None \<in>
     set (trace (advance demo_world 8000 (handleNewFile demo_pdf init)))"
proof -
  let ?s1 = "\<lparr>now = 3000, recentlyProcessed = {}, pendingFiles = Map.empty, cachedModels = [],
      timers = [\<lparr>tid = Suc 0, due = 8000, task = GraceDone demo_key\<rparr>],
      nextId = Suc (Suc 0), trace = [], fired = [(3000, DebounceFire demo_pdf)]\<rparr>"
  let ?tm = "\<lparr>tid = Suc 0, due = 8000, task = GraceDone demo_key\<rparr>"
  let ?expiry = "\<lparr>tid = Suc (Suc 0), due = 128000, task = ExpireRecent demo_key\<rparr>"
  let ?banner = "\<lparr>tid = Suc (Suc (Suc 0)), due = 8000, task = Resume (AwaitPrompt demo_key)\<rparr>"
  let ?s2 = "\<lparr>now = 8000, recentlyProcessed = {demo_key}, pendingFiles = Map.empty,
      cachedModels = [], timers = [?expiry, ?banner], nextId = Suc (Suc (Suc (Suc 0))),
      trace = [ShowInformationMessage (Detected demo_key)],
      fired = [(3000, DebounceFire demo_pdf), (8000, GraceDone demo_key)]\<rparr>"
  have n: "nextTimer 8000 ?s1 = Some ?tm"
    by (simp add: nextTimer_def)
  have f: "fire demo_world ?tm ?s1 = ?s2"
    by (subst fire_grace [where key = demo_key], simp)
      (simp add: analyzePaper_auto demo_world_fields)
  have a: "alone 8000 [?expiry] ?banner ?s2"
    by (simp add: alone_def)
  have "advance demo_world 8000 ?s2 =
      advance demo_world 8000 (proceed demo_world (resume demo_world (AwaitPrompt demo_key)
        (?s2\<lparr>now := 8000, timers := [?expiry],
             fired := fired ?s2 @ [(8000, Resume (AwaitPrompt demo_key))]\<rparr>)))"
    using alone_step [OF a, of "AwaitPrompt demo_key" demo_world] by simp
  moreover have "RunPython Pdf_to_text demo_key None \<in>
      set (trace (proceed demo_world (resume demo_world (AwaitPrompt demo_key)
        (?s2\<lparr>now := 8000, timers := [?expiry],
             fired := fired ?s2 @ [(8000, Resume (AwaitPrompt demo_key))]\<rparr>))))"
    by (simp add: demo_world_fields startPipeline_def suspend_frame trace_emit)
  ultimately have "RunPython Pdf_to_text demo_key None \<in> set (trace (advance demo_world 8000 ?s2))"
    using advance_trace_grows [of "proceed demo_world (resume demo_world (AwaitPrompt demo_key)
        (?s2\<lparr>now := 8000, timers := [?expiry],
             fired := fired ?s2 @ [(8000, Resume (AwaitPrompt demo_key))]\<rparr>))" demo_world 8000]
    by (auto simp: prefix_def)
  then show ?thesis
    using advance_step [OF n, of demo_world] by (simp add: demo_after_debounce f)
qed

subsection \<open>C8: the grace period\<close>

text \<open>
  C8 as stated fails: the document is not checked again after the 5 second wait. The
  document exists when the debounce timer runs at 3000 and is gone at 8000, when the
  wait ends; the pipeline is started all the same and calls the text extractor.
\<close>

theorem C8_no_recheck_after_grace:
  "existsSync demo_world 3000 demo_pdf \<and> \<not> existsSync demo_world 8000 demo_pdf \<and>
   RunPython Pdf_to_text demo_key None \<in>
     set (trace (advance demo_world 8000 (handleNewFile demo_pdf init)))"
  using demo_pipeline_started by (simp add: demo_world_fields)

lemma grace_timer_runs:
  assumes "task tm = DebounceFire fullPath" and "existsSync w (due tm) fullPath"
    and "extractKeyFromPath (cfg_storage w) fullPath = Some key"
    and "wf_timers s" and "due tm + 5000 \<le> T"
  shows "(due tm + 5000, GraceDone key) \<in> set (fired (advance w T (fire w tm s)))"
proof -
  let ?g = "\<lparr>tid = nextId s, due = due tm + 5000, task = GraceDone key\<rparr>"
  have "?g \<in> set (timers (fire w tm s))"
    by (simp add: fire_debounce_present [OF assms(1-3)])
  moreover have "wf_timers (fire w tm s)"
    using assms(4) by (rule fire_wf)
  ultimately show ?thesis
    using advance_runs_due [of "fire w tm s" ?g T w] assms(5) by simp
qed

text \<open>
  C8, amended: when the debounce timer runs, the callback first checks that the document
  exists; if it is gone the run is abandoned silently (no timer, no collaborator call).
  If it exists and a key is extracted, the callback waits a fixed 5000 ms: the wait ends
  exactly 5000 ms after the debounce callback ran. When the wait ends the pipeline is
  started with \<open>analyzePaper key true\<close>, whatever the file system says then.
\<close>

theorem C8_grace_period:
  "(task tm = DebounceFire fullPath \<and> \<not> existsSync w (due tm) fullPath \<longrightarrow>
      fire w tm s =
        s\<lparr>now := due tm,
          timers := filter (\<lambda>t. tid t \<noteq> tid tm) (timers s),
          fired := fired s @ [(due tm, DebounceFire fullPath)],
          pendingFiles := (pendingFiles s)(fullPath := None)\<rparr>) \<and>
   (task tm = DebounceFire fullPath \<and> existsSync w (due tm) fullPath \<and>
    extractKeyFromPath (cfg_storage w) fullPath = Some key \<longrightarrow>
      fire w tm s =
        s\<lparr>now := due tm,
          timers := filter (\<lambda>t. tid t \<noteq> tid tm) (timers s) @
            [\<lparr>tid = nextId s, due = due tm + 5000, task = GraceDone key\<rparr>],
          fired := fired s @ [(due tm, DebounceFire fullPath)],
          pendingFiles := (pendingFiles s)(fullPath := None),
          nextId := Suc (nextId s)\<rparr>) \<and>
   (task tm = DebounceFire fullPath \<and> existsSync w (due tm) fullPath \<and>
    extractKeyFromPath (cfg_storage w) fullPath = Some key \<and>
    wf_timers s \<and> due tm + 5000 \<le> T \<longrightarrow>
      (due tm + 5000, GraceDone key) \<in> set (fired (advance w T (fire w tm s)))) \<and>
   (task tm = GraceDone key \<longrightarrow>
      fire w tm s =
        analyzePaper w key True
          (s\<lparr>now := due tm,
             timers := filter (\<lambda>t. tid t \<noteq> tid tm) (timers s),
             fired := fired s @ [(due tm, GraceDone key)]\<rparr>) \<and>
      fire (w\<lparr>existsSync := gone\<rparr>) tm s = fire w tm s)"
proof (intro conjI impI)
  assume "task tm = DebounceFire fullPath \<and> \<not> existsSync w (due tm) fullPath"
  then show "fire w tm s =
        s\<lparr>now := due tm,
          timers := filter (\<lambda>t. tid t \<noteq> tid tm) (timers s),
          fired := fired s @ [(due tm, DebounceFire fullPath)],
          pendingFiles := (pendingFiles s)(fullPath := None)\<rparr>"
    using fire_debounce_missing [of tm fullPath w s] by simp
next
  assume "task tm = DebounceFire fullPath \<and> existsSync w (due tm) fullPath \<and>
    extractKeyFromPath (cfg_storage w) fullPath = Some key"
  then show "fire w tm s =
        s\<lparr>now := due tm,
          timers := filter (\<lambda>t. tid t \<noteq> tid tm) (timers s) @
            [\<lparr>tid = nextId s, due = due tm + 5000, task = GraceDone key\<rparr>],
          fired := fired s @ [(due tm, DebounceFire fullPath)],
          pendingFiles := (pendingFiles s)(fullPath := None),
          nextId := Suc (nextId s)\<rparr>"
    using fire_debounce_present [of tm fullPath w key s] by simp
next
  assume "task tm = DebounceFire fullPath \<and> existsSync w (due tm) fullPath \<and>
    extractKeyFromPath (cfg_storage w) fullPath = Some key \<and>
    wf_timers s \<and> due tm + 5000 \<le> T"
  then show "(due tm + 5000, GraceDone key) \<in> set (fired (advance w T (fire w tm s)))"
    using grace_timer_runs [of tm fullPath w key s T] by simp
next
  assume g: "task tm = GraceDone key"
  then show "fire w tm s =
        analyzePaper w key True
          (s\<lparr>now := due tm,
             timers := filter (\<lambda>t. tid t \<noteq> tid tm) (timers s),
             fired := fired s @ [(due tm, GraceDone key)]\<rparr>)"
    by (rule fire_grace)
  show "fire (w\<lparr>existsSync := gone\<rparr>) tm s = fire w tm s"
    using g by (simp add: fire_grace analyzePaper_existsSync)
qed

theorem C8_grace_period_witness:
  "existsSync demo_world 3000 demo_pdf \<and>
   extractKeyFromPath (cfg_storage demo_world) demo_pdf = Some demo_key \<and>
   timers (fire demo_world \<lparr>tid = 0, due = 3000, task = DebounceFire demo_pdf\<rparr> init) =
     [\<lparr>tid = 0, due = 8000, task = GraceDone demo_key\<rparr>] \<and>
   wf_timers init \<and>
   (8000, GraceDone demo_key) \<in>
     set (fired (advance demo_world 8000
       (fire demo_world \<lparr>tid = 0, due = 3000, task = DebounceFire demo_pdf\<rparr> init))) \<and>
   \<not> existsSync demo_world 6000 demo_pdf \<and>
   timers (fire demo_world \<lparr>tid = 0, due = 6000, task = DebounceFire demo_pdf\<rparr> init) = [] \<and>
   fire (demo_world\<lparr>existsSync := \<lambda>t p. False\<rparr>)
     \<lparr>tid = 1, due = 8000, task = GraceDone demo_key\<rparr> init =
   fire demo_world \<lparr>tid = 1, due = 8000, task = GraceDone demo_key\<rparr> init"
proof -
  let ?present = "\<lparr>tid = 0, due = 3000, task = DebounceFire demo_pdf\<rparr>"
  let ?missing = "\<lparr>tid = 0, due = 6000, task = DebounceFire demo_pdf\<rparr>"
  let ?grace = "\<lparr>tid = 1, due = 8000, task = GraceDone demo_key\<rparr>"
  have e: "existsSync demo_world 3000 demo_pdf" "\<not> existsSync demo_world 6000 demo_pdf"
    "extractKeyFromPath (cfg_storage demo_world) demo_pdf = Some demo_key"
    by (simp_all add: demo_world_fields demo_extract)
  have h2: "task ?present = DebounceFire demo_pdf \<and> existsSync demo_world (due ?present) demo_pdf \<and>
      extractKeyFromPath (cfg_storage demo_world) demo_pdf = Some demo_key"
    using e by simp
  have h3: "task ?present = DebounceFire demo_pdf \<and> existsSync demo_world (due ?present) demo_pdf \<and>
      extractKeyFromPath (cfg_storage demo_world) demo_pdf = Some demo_key \<and>
      wf_timers init \<and> due ?present + 5000 \<le> 8000"
    using e wf_init by simp
  have h1: "task ?missing = DebounceFire demo_pdf \<and> \<not> existsSync demo_world (due ?missing) demo_pdf"
    using e by simp
  have h4: "task ?grace = GraceDone demo_key"
    by simp
  have "fire demo_world ?present init =
      init\<lparr>now := due ?present,
        timers := filter (\<lambda>t. tid t \<noteq> tid ?present) (timers init) @
          [\<lparr>tid = nextId init, due = due ?present + 5000, task = GraceDone demo_key\<rparr>],
        fired := fired init @ [(due ?present, DebounceFire demo_pdf)],
        pendingFiles := (pendingFiles init)(demo_pdf := None),
        nextId := Suc (nextId init)\<rparr>"
    using C8_grace_period [where tm = ?present and fullPath = demo_pdf and w = demo_world
        and key = demo_key and s = init] h2
    by blast
  then have present: "timers (fire demo_world ?present init) =
      [\<lparr>tid = 0, due = 8000, task = GraceDone demo_key\<rparr>]"
    by (simp add: init_fields)
  have "(due ?present + 5000, GraceDone demo_key) \<in>
      set (fired (advance demo_world 8000 (fire demo_world ?present init)))"
    using C8_grace_period [where tm = ?present and fullPath = demo_pdf and w = demo_world
        and key = demo_key and s = init and T = 8000] h3
    by blast
  then have started: "(8000, GraceDone demo_key) \<in>
      set (fired (advance demo_world 8000 (fire demo_world ?present init)))"
    by simp
  have "fire demo_world ?missing init =
      init\<lparr>now := due ?missing,
        timers := filter (\<lambda>t. tid t \<noteq> tid ?missing) (timers init),
        fired := fired init @ [(due ?missing, DebounceFire demo_pdf)],
        pendingFiles := (pendingFiles init)(demo_pdf := None)\<rparr>"
    using C8_grace_period [where tm = ?missing and fullPath = demo_pdf and w = demo_world
        and s = init] h1
    by blast
  then have missing: "timers (fire demo_world ?missing init) = []"
    by (simp add: init_fields)
  have same: "fire (demo_world\<lparr>existsSync := \<lambda>t p. False\<rparr>) ?grace init =
      fire demo_world ?grace init"
    using C8_grace_period [where tm = ?grace and key = demo_key and w = demo_world
        and s = init and gone = "\<lambda>t p. False"] h4
    by blast
  show ?thesis
    using e present wf_init started missing same by blast
qed


section \<open>Properties of a failed write-back\<close>

lemma trim_demo_raw: "trim demo_raw = js ''12 pages'' @ newline # js ''Abstract''"
  by (simp add: demo_raw_def trim_def js_def isWhiteSpace_def newline_def)

lemma pdfTextOf_demo_raw: "pdfTextOf demo_raw = js ''Abstract''"
  by (rule status_and_text(2) [OF trim_demo_raw]) (simp add: js_def newline_def)

lemma nonblank_Abstract: "\<not> list_all isWhiteSpace (js ''Abstract'')"
  by (simp add: js_def isWhiteSpace_def)

lemma select_Abstract:
  "selectContext (js ''Abstract'') = \<lparr>usedText = js ''Abstract'', readNote = FullText\<rparr>"
  by (rule selectContext_short) (simp add: js_def maxChars_def)



text \<open>
  A manual run in the world whose collaborators take their time: the write-back fails
  at 35000.
\<close>

lemma timed_resolved:
  "resolveModel_from (unicodeLower timed_world) (fst (getAvailableModels timed_world init))
     (cfg_model timed_world) = Some demo_sonnet"
proof -
  have "fst (getAvailableModels timed_world init) = [demo_sonnet, demo_gpt]"
    by (simp add: getAvailableModels_def Let_def init_fields timed_world_fields)
  then show ?thesis
    using resolve_sonnet(1) [of demo_sonnet demo_gpt]
    by (simp add: timed_world_fields demo_sonnet_def demo_gpt_def)
qed

lemma timed_run:
  "demo_key \<notin> recentlyProcessed init"
  "list_all (\<lambda>t. 40000 < due t) (timers init)"
  "\<not> (False \<and> startPrompt timed_world demo_key = SkipThisTime)"
  "pdf_to_text timed_world demo_key = Inr demo_raw"
  "\<not> list_all isWhiteSpace (pdfTextOf demo_raw)"
  "sendRequest timed_world demo_sonnet (readNote (selectContext (pdfTextOf demo_raw)))
     (usedText (selectContext (pdfTextOf demo_raw))) = Inr ([js ''An'', js ''alysis''], None)"
  "save_analysis timed_world demo_key (concat [js ''An'', js ''alysis'']) = Inl PythonExit"
  "PythonExit \<noteq> SpawnError"
  "now init + (if False then latency timed_world (AwaitPrompt demo_key) else 0) +
     latency timed_world (AwaitExtract demo_key) +
     (if cachedModels init = [] then latency timed_world (AwaitModels demo_key (pdfTextOf demo_raw))
      else 0) +
     latency timed_world (AwaitStream demo_key demo_sonnet (pdfTextOf demo_raw)) +
     latency timed_world (AwaitSave demo_key (concat [js ''An'', js ''alysis''])) \<le> 40000"
  "40000 < now init + 120000"
  by (simp_all add: init_fields timed_world_fields pdfTextOf_demo_raw nonblank_Abstract)

lemma timed_failure:
  "effects_since init (advance timed_world 40000 (analyzePaper timed_world demo_key False init)) =
     [RunPython Pdf_to_text demo_key None, SelectChatModels,
      SendRequest demo_sonnet FullText (js ''Abstract''),
      RunPython Save_analysis demo_key (Some (concat [js ''An'', js ''alysis''])),
      ShowWarningMessage (WritebackFailed PythonExit)]"
  "recentlyProcessed (advance timed_world 40000 (analyzePaper timed_world demo_key False init)) =
     {demo_key}"
  using run_writeback_failed(1) [OF timed_run(1) wf_init timed_run(2,3,4,5) timed_resolved
      timed_run(6,7,8,9,10)]
    run_writeback_failed(2) [OF timed_run(1) wf_init timed_run(2,3,4,5) timed_resolved
      timed_run(6,7,8,9,10)]
  by (simp_all add: init_fields pdfTextOf_demo_raw select_Abstract)

text \<open>
  When the write-back script cannot be spawned, no continuation of the run is registered:
  the run stays suspended and shows nothing.
\<close>

lemma writeback_not_spawned:
  assumes "save_analysis w itemKey analysis = Inl SpawnError"
  shows "suspend w (AwaitSave itemKey analysis) s = s"
  using assms by (simp add: suspend_def settles_def)

subsection \<open>C2: a failed write-back\<close>

text \<open>
  C2, as the specification states it, fails: a failed write-back does not release the
  reservation. A manual run starts at time 0, its write-back fails at 35000 and the
  warning is shown; at 40000 the key is still in \<open>recentlyProcessed\<close>, and a manual
  trigger for the key does nothing.
\<close>

theorem C2_reservation_not_released:
  "ShowWarningMessage (WritebackFailed PythonExit) \<in>
     set (effects_since init
       (advance timed_world 40000 (analyzePaper timed_world demo_key False init))) \<and>
   now (advance timed_world 40000 (analyzePaper timed_world demo_key False init)) = 40000 \<and>
   demo_key \<in> recentlyProcessed
     (advance timed_world 40000 (analyzePaper timed_world demo_key False init)) \<and>
   analyzePaper timed_world demo_key False
     (advance timed_world 40000 (analyzePaper timed_world demo_key False init)) =
   advance timed_world 40000 (analyzePaper timed_world demo_key False init)"
proof -
  let ?S = "advance timed_world 40000 (analyzePaper timed_world demo_key False init)"
  have "now (analyzePaper timed_world demo_key False init) \<le> 40000"
    by (simp add: analyzePaper_frame init_fields)
  then have n: "now ?S = 40000"
    by (rule advance_now)
  have r: "demo_key \<in> recentlyProcessed ?S"
    by (simp add: timed_failure(2))
  then have "analyzePaper timed_world demo_key False ?S = ?S"
    by (rule analyzePaper_noop)
  then show ?thesis
    using n r by (simp add: timed_failure(1))
qed

text \<open>
  C2, amended: when the write-back script closes with an error code after generation has
  succeeded, the run ends with the warning "analysis complete but write-back failed"
  (not an error message) and nothing else: the failure handler registers no callback, so
  there is no retry, and it leaves \<open>recentlyProcessed\<close> as it is, so the reservation is
  not released by the failure. In a run that no other callback interrupts and that ends
  before its expiry timer is due, the extractor, the model and the write-back script have
  each been called once, only the expiry timer of the run is pending afterwards, the key
  is still reserved, and a trigger for the key does nothing.
\<close>

theorem C2_writeback_failure:
  "(save_analysis w itemKey analysis = Inl err \<and> err \<noteq> SpawnError \<longrightarrow>
      effects_since s (runTask w (Resume (AwaitSave itemKey analysis)) s) =
        [ShowWarningMessage (WritebackFailed err)] \<and>
      timers (runTask w (Resume (AwaitSave itemKey analysis)) s) = timers s \<and>
      recentlyProcessed (runTask w (Resume (AwaitSave itemKey analysis)) s) =
        recentlyProcessed s) \<and>
   (itemKey \<notin> recentlyProcessed s \<and> wf_timers s \<and> list_all (\<lambda>t. T < due t) (timers s) \<and>
    \<not> (autoTriggered \<and> startPrompt w itemKey = SkipThisTime) \<and>
    pdf_to_text w itemKey = Inr raw \<and> \<not> list_all isWhiteSpace (pdfTextOf raw) \<and>
    resolveModel_from (unicodeLower w) (fst (getAvailableModels w s)) (cfg_model w) = Some m \<and>
    sendRequest w m (readNote (selectContext (pdfTextOf raw)))
      (usedText (selectContext (pdfTextOf raw))) = Inr (chunks, None) \<and>
    save_analysis w itemKey (concat chunks) = Inl err \<and> err \<noteq> SpawnError \<and>
    now s + (if autoTriggered then latency w (AwaitPrompt itemKey) else 0) +
      latency w (AwaitExtract itemKey) +
      (if cachedModels s = [] then latency w (AwaitModels itemKey (pdfTextOf raw)) else 0) +
      latency w (AwaitStream itemKey m (pdfTextOf raw)) +
      latency w (AwaitSave itemKey (concat chunks)) \<le> T \<and>
    T < now s + 120000 \<longrightarrow>
      effects_since s (advance w T (analyzePaper w itemKey autoTriggered s)) =
        (if autoTriggered then [ShowInformationMessage (Detected itemKey)] else []) @
        RunPython Pdf_to_text itemKey None #
        (if cachedModels s = [] then [SelectChatModels] else []) @
        [SendRequest m (readNote (selectContext (pdfTextOf raw)))
           (usedText (selectContext (pdfTextOf raw))),
         RunPython Save_analysis itemKey (Some (concat chunks)),
         ShowWarningMessage (WritebackFailed err)] \<and>
      timers (advance w T (analyzePaper w itemKey autoTriggered s)) =
        timers s @ [\<lparr>tid = nextId s, due = now s + 120000, task = ExpireRecent itemKey\<rparr>] \<and>
      itemKey \<in> recentlyProcessed (advance w T (analyzePaper w itemKey autoTriggered s)) \<and>
      analyzePaper w' itemKey again (advance w T (analyzePaper w itemKey autoTriggered s)) =
        advance w T (analyzePaper w itemKey autoTriggered s))"
proof (intro conjI impI)
  assume h: "save_analysis w itemKey analysis = Inl err \<and> err \<noteq> SpawnError"
  then have r: "runTask w (Resume (AwaitSave itemKey analysis)) s =
      emit (ShowWarningMessage (WritebackFailed err)) s"
    by (simp add: runTask_def)
  show "effects_since s (runTask w (Resume (AwaitSave itemKey analysis)) s) =
      [ShowWarningMessage (WritebackFailed err)]"
    and "timers (runTask w (Resume (AwaitSave itemKey analysis)) s) = timers s"
    and "recentlyProcessed (runTask w (Resume (AwaitSave itemKey analysis)) s) =
      recentlyProcessed s"
    by (simp_all add: r effects_since_def trace_emit)
next
  let ?S = "advance w T (analyzePaper w itemKey autoTriggered s)"
  assume h: "itemKey \<notin> recentlyProcessed s \<and> wf_timers s \<and>
    list_all (\<lambda>t. T < due t) (timers s) \<and>
    \<not> (autoTriggered \<and> startPrompt w itemKey = SkipThisTime) \<and>
    pdf_to_text w itemKey = Inr raw \<and> \<not> list_all isWhiteSpace (pdfTextOf raw) \<and>
    resolveModel_from (unicodeLower w) (fst (getAvailableModels w s)) (cfg_model w) = Some m \<and>
    sendRequest w m (readNote (selectContext (pdfTextOf raw)))
      (usedText (selectContext (pdfTextOf raw))) = Inr (chunks, None) \<and>
    save_analysis w itemKey (concat chunks) = Inl err \<and> err \<noteq> SpawnError \<and>
    now s + (if autoTriggered then latency w (AwaitPrompt itemKey) else 0) +
      latency w (AwaitExtract itemKey) +
      (if cachedModels s = [] then latency w (AwaitModels itemKey (pdfTextOf raw)) else 0) +
      latency w (AwaitStream itemKey m (pdfTextOf raw)) +
      latency w (AwaitSave itemKey (concat chunks)) \<le> T \<and>
    T < now s + 120000"
  note run = run_writeback_failed [OF h [THEN conjunct1]
      h [THEN conjunct2, THEN conjunct1]
      h [THEN conjunct2, THEN conjunct2, THEN conjunct1]
      h [THEN conjunct2, THEN conjunct2, THEN conjunct2, THEN conjunct1]
      h [THEN conjunct2, THEN conjunct2, THEN conjunct2, THEN conjunct2, THEN conjunct1]
      h [THEN conjunct2, THEN conjunct2, THEN conjunct2, THEN conjunct2, THEN conjunct2,
         THEN conjunct1]
      h [THEN conjunct2, THEN conjunct2, THEN conjunct2, THEN conjunct2, THEN conjunct2,
         THEN conjunct2, THEN conjunct1]
      h [THEN conjunct2, THEN conjunct2, THEN conjunct2, THEN conjunct2, THEN conjunct2,
         THEN conjunct2, THEN conjunct2, THEN conjunct1]
      h [THEN conjunct2, THEN conjunct2, THEN conjunct2, THEN conjunct2, THEN conjunct2,
         THEN conjunct2, THEN conjunct2, THEN conjunct2, THEN conjunct1]
      h [THEN conjunct2, THEN conjunct2, THEN conjunct2, THEN conjunct2, THEN conjunct2,
         THEN conjunct2, THEN conjunct2, THEN conjunct2, THEN conjunct2, THEN conjunct1]
      h [THEN conjunct2, THEN conjunct2, THEN conjunct2, THEN conjunct2, THEN conjunct2,
         THEN conjunct2, THEN conjunct2, THEN conjunct2, THEN conjunct2, THEN conjunct2,
         THEN conjunct1]
      h [THEN conjunct2, THEN conjunct2, THEN conjunct2, THEN conjunct2, THEN conjunct2,
         THEN conjunct2, THEN conjunct2, THEN conjunct2, THEN conjunct2, THEN conjunct2,
         THEN conjunct2]]
  show "effects_since s ?S =
        (if autoTriggered then [ShowInformationMessage (Detected itemKey)] else []) @
        RunPython Pdf_to_text itemKey None #
        (if cachedModels s = [] then [SelectChatModels] else []) @
        [SendRequest m (readNote (selectContext (pdfTextOf raw)))
           (usedText (selectContext (pdfTextOf raw))),
         RunPython Save_analysis itemKey (Some (concat chunks)),
         ShowWarningMessage (WritebackFailed err)]"
    by (rule run(1))
  show "timers ?S =
        timers s @ [\<lparr>tid = nextId s, due = now s + 120000, task = ExpireRecent itemKey\<rparr>]"
    by (rule run(3))
  show r: "itemKey \<in> recentlyProcessed ?S"
    by (simp add: run(2))
  show "analyzePaper w' itemKey again ?S = ?S"
    using r by (rule analyzePaper_noop)
qed

theorem C2_writeback_failure_witness:
  "save_analysis timed_world demo_key (concat [js ''An'', js ''alysis'']) = Inl PythonExit \<and>
   PythonExit \<noteq> SpawnError \<and>
   recentlyProcessed (runTask timed_world
     (Resume (AwaitSave demo_key (concat [js ''An'', js ''alysis''])))
     (init\<lparr>recentlyProcessed := {demo_key}\<rparr>)) = {demo_key} \<and>
   demo_key \<notin> recentlyProcessed init \<and> wf_timers init \<and>
   pdf_to_text timed_world demo_key = Inr demo_raw \<and>
   \<not> list_all isWhiteSpace (pdfTextOf demo_raw) \<and>
   resolveModel_from (unicodeLower timed_world) (fst (getAvailableModels timed_world init))
     (cfg_model timed_world) = Some demo_sonnet \<and>
   effects_since init (advance timed_world 40000 (analyzePaper timed_world demo_key False init)) =
     [RunPython Pdf_to_text demo_key None, SelectChatModels,
      SendRequest demo_sonnet FullText (js ''Abstract''),
      RunPython Save_analysis demo_key (Some (concat [js ''An'', js ''alysis''])),
      ShowWarningMessage (WritebackFailed PythonExit)] \<and>
   timers (advance timed_world 40000 (analyzePaper timed_world demo_key False init)) =
     [\<lparr>tid = 0, due = 120000, task = ExpireRecent demo_key\<rparr>] \<and>
   demo_key \<in> recentlyProcessed
     (advance timed_world 40000 (analyzePaper timed_world demo_key False init))"
proof -
  have handler: "recentlyProcessed (runTask timed_world
      (Resume (AwaitSave demo_key (concat [js ''An'', js ''alysis''])))
      (init\<lparr>recentlyProcessed := {demo_key}\<rparr>)) = {demo_key}"
    using C2_writeback_failure [where w = timed_world and itemKey = demo_key
        and analysis = "concat [js ''An'', js ''alysis'']" and err = PythonExit
        and s = "init\<lparr>recentlyProcessed := {demo_key}\<rparr>", THEN conjunct1]
      timed_run(7,8)
    by simp
  have run: "effects_since init
      (advance timed_world 40000 (analyzePaper timed_world demo_key False init)) =
     [RunPython Pdf_to_text demo_key None, SelectChatModels,
      SendRequest demo_sonnet FullText (js ''Abstract''),
      RunPython Save_analysis demo_key (Some (concat [js ''An'', js ''alysis''])),
      ShowWarningMessage (WritebackFailed PythonExit)] \<and>
     timers (advance timed_world 40000 (analyzePaper timed_world demo_key False init)) =
       [\<lparr>tid = 0, due = 120000, task = ExpireRecent demo_key\<rparr>] \<and>
     demo_key \<in> recentlyProcessed
       (advance timed_world 40000 (analyzePaper timed_world demo_key False init))"
    using C2_writeback_failure [where w = timed_world and itemKey = demo_key
        and autoTriggered = False and s = init and T = 40000 and raw = demo_raw
        and m = demo_sonnet and chunks = "[js ''An'', js ''alysis'']" and err = PythonExit,
        THEN conjunct2]
      timed_run wf_init timed_resolved
    by (simp add: init_fields pdfTextOf_demo_raw select_Abstract)
  show ?thesis
    using handler run timed_run(1,4,5,7,8) wf_init timed_resolved by (intro conjI) simp_all
qed

section \<open>Properties of the status line\<close>

subsection \<open>C10: the status line of the extractor\<close>




end
